theory Spec2Isabelle
  imports Complex_Main
begin

section \<open>Delaunay triangulation on regular grids: the model\<close>

text \<open>
  A shallow embedding of \<^verbatim>\<open>safe_learning/functions.py\<close>. Arrays are lists, a batch of
  points is a list of rows, and every exception the code can raise is a value \<open>Inl e\<close>.

  Numbers: the source computes in IEEE double precision. The embedding computes over the
  reals, so every statement below is about the exact-arithmetic reading of the code
  (the reading the specification calls "exact" as opposed to "up to floating tolerance").
  Rounding error is not modelled. Integer arrays are unbounded integers; the wrap-around
  of 64-bit products is not modelled.

  scipy's \<^verbatim>\<open>spatial.Delaunay\<close> and numpy's \<^verbatim>\<open>linalg.inv\<close> are libraries outside the
  repository: they enter the model as parameters.
\<close>

subsection \<open>Errors and results\<close>

datatype error = ValueError | IndexError | TypeError | LinAlgError

definition thn :: "error + 'a \<Rightarrow> ('a \<Rightarrow> error + 'b) \<Rightarrow> error + 'b" where
  "thn r f = (case r of Inl e \<Rightarrow> Inl e | Inr x \<Rightarrow> f x)"

text \<open>A vectorised numpy call fails as a whole when it fails on one element.\<close>

fun mapM :: "('a \<Rightarrow> error + 'b) \<Rightarrow> 'a list \<Rightarrow> error + 'b list" where
  "mapM f [] = Inr []"
| "mapM f (x # xs) =
     (case f x of Inl e \<Rightarrow> Inl e
      | Inr y \<Rightarrow> (case mapM f xs of Inl e \<Rightarrow> Inl e | Inr ys \<Rightarrow> Inr (y # ys)))"

subsection \<open>numpy primitives\<close>

text \<open>\<^verbatim>\<open>np.finfo(np.float64).eps\<close>.\<close>

definition eps :: real where
  "eps = 1 / 2 ^ 52"

text \<open>\<^verbatim>\<open>np.clip(a, a_min, a_max)\<close> is \<^verbatim>\<open>np.minimum(a_max, np.maximum(a, a_min))\<close>.\<close>

definition clip :: "real \<Rightarrow> real \<Rightarrow> real \<Rightarrow> real" where
  "clip a a_min a_max = min a_max (max a a_min)"

text \<open>\<^verbatim>\<open>np.rint\<close>: round to the nearest integer, ties to the even one.\<close>

definition rint :: "real \<Rightarrow> int" where
  "rint x = (let f = \<lfloor>x\<rfloor>; d = x - of_int f in
     if d < 1 / 2 then f else if 1 / 2 < d then f + 1
     else if even f then f else f + 1)"

text \<open>\<^verbatim>\<open>np.floor_divide\<close> and \<^verbatim>\<open>%\<close> on floats, for the exact quotient.\<close>

definition floor_divide :: "real \<Rightarrow> real \<Rightarrow> int" where
  "floor_divide x u = \<lfloor>x / u\<rfloor>"

definition fmod :: "real \<Rightarrow> real \<Rightarrow> real" where
  "fmod x u = x - of_int \<lfloor>x / u\<rfloor> * u"

text \<open>
  \<^verbatim>\<open>np.unravel_index\<close> and \<^verbatim>\<open>np.ravel_multi_index\<close> in C order (the last axis varies
  fastest), with numpy's default \<^verbatim>\<open>mode='raise'\<close>.
\<close>

fun unravel_c :: "int \<Rightarrow> int list \<Rightarrow> int list" where
  "unravel_c i [] = []"
| "unravel_c i (d # ds) = (i div prod_list ds) # unravel_c (i mod prod_list ds) ds"

definition unravel_index :: "int \<Rightarrow> int list \<Rightarrow> error + int list" where
  "unravel_index i dims =
     (if i < 0 \<or> prod_list dims \<le> i then Inl ValueError else Inr (unravel_c i dims))"

fun ravel_c :: "int list \<Rightarrow> int list \<Rightarrow> int" where
  "ravel_c (i # ijk) (d # ds) = i * prod_list ds + ravel_c ijk ds"
| "ravel_c _ _ = 0"

definition ravel_multi_index :: "int list \<Rightarrow> int list \<Rightarrow> error + int" where
  "ravel_multi_index ijk dims =
     (if length ijk \<noteq> length dims then Inl ValueError
      else if list_ex (\<lambda>(i, d). i < 0 \<or> d \<le> i) (zip ijk dims) then Inl ValueError
      else Inr (ravel_c ijk dims))"

subsection \<open>GridWorld\<close>

text \<open>
  The constructor arguments are the fields; \<open>offset\<close>, \<open>unit_maxes\<close>, \<open>offset_limits\<close>,
  \<open>nrectangles\<close>, \<open>nindex\<close> and \<open>ndim\<close> are computed from them once in \<^verbatim>\<open>__init__\<close> and
  never assigned again, so they are functions of the record.
\<close>

record GridWorld =
  limits :: "(real \<times> real) list"
  num_points :: "int list"
  vertex_values :: "real list option"

definition offset :: "'a GridWorld_scheme \<Rightarrow> real list" where
  "offset g = map fst (limits g)"

definition unit_maxes :: "'a GridWorld_scheme \<Rightarrow> real list" where
  "unit_maxes g = map2 (\<lambda>(lo, hi) n. (hi - lo) / of_int n) (limits g) (num_points g)"

definition offset_limits :: "'a GridWorld_scheme \<Rightarrow> (real \<times> real) list" where
  "offset_limits g = map (\<lambda>(lo, hi). (0, hi - lo)) (limits g)"

definition nrectangles :: "'a GridWorld_scheme \<Rightarrow> int" where
  "nrectangles g = prod_list (num_points g)"

definition vertex_dims :: "'a GridWorld_scheme \<Rightarrow> int list" where
  "vertex_dims g = map (\<lambda>n. n + 1) (num_points g)"

definition nindex :: "'a GridWorld_scheme \<Rightarrow> int" where
  "nindex g = prod_list (vertex_dims g)"

definition ndim :: "'a GridWorld_scheme \<Rightarrow> nat" where
  "ndim g = length (limits g)"

definition center_row :: "'a GridWorld_scheme \<Rightarrow> bool \<Rightarrow> real list \<Rightarrow> real list" where
  "center_row g do_clip p =
     (let st = map2 (-) p (offset g) in
      if do_clip
      then map2 (\<lambda>s (lo, hi). clip s (lo + 2 * eps) (hi - 2 * eps)) st (offset_limits g)
      else st)"

definition center_states :: "'a GridWorld_scheme \<Rightarrow> real list list \<Rightarrow> bool \<Rightarrow> real list list" where
  "center_states g states do_clip = map (center_row g do_clip) states"

text \<open>\<^verbatim>\<open>ijk_index * self.unit_maxes + self.offset\<close>, one row.\<close>

definition lattice_state :: "'a GridWorld_scheme \<Rightarrow> int list \<Rightarrow> real list" where
  "lattice_state g ijk = map2 (+) (map2 (\<lambda>k u. of_int k * u) ijk (unit_maxes g)) (offset g)"

text \<open>\<^verbatim>\<open>np.clip(states, self.limits[:, 0], self.limits[:, 1])\<close>, one row.\<close>

definition clip_to_limits :: "'a GridWorld_scheme \<Rightarrow> real list \<Rightarrow> real list" where
  "clip_to_limits g p = map2 (\<lambda>s (lo, hi). clip s lo hi) p (limits g)"

definition index_to_state1 :: "'a GridWorld_scheme \<Rightarrow> int \<Rightarrow> error + real list" where
  "index_to_state1 g i =
     thn (unravel_index i (vertex_dims g)) (\<lambda>ijk. Inr (lattice_state g ijk))"

definition index_to_state :: "'a GridWorld_scheme \<Rightarrow> int list \<Rightarrow> error + real list list" where
  "index_to_state g indices = mapM (index_to_state1 g) indices"

definition state_to_index1 :: "'a GridWorld_scheme \<Rightarrow> real list \<Rightarrow> error + int" where
  "state_to_index1 g p =
     (let st = clip_to_limits g p;
          st = map2 (/) (map2 (-) st (offset g)) (unit_maxes g);
          ijk_index = map rint st
      in ravel_multi_index ijk_index (vertex_dims g))"

definition state_to_index :: "'a GridWorld_scheme \<Rightarrow> real list list \<Rightarrow> error + int list" where
  "state_to_index g states = mapM (state_to_index1 g) states"

definition rectangle_of_centered :: "'a GridWorld_scheme \<Rightarrow> real list \<Rightarrow> error + int" where
  "rectangle_of_centered g st =
     ravel_multi_index (map2 floor_divide st (unit_maxes g)) (num_points g)"

definition state_to_rectangle :: "'a GridWorld_scheme \<Rightarrow> real list list \<Rightarrow> bool \<Rightarrow> error + int list" where
  "state_to_rectangle g states do_offset =
     (let states = (if do_offset then center_states g states True else states)
      in mapM (rectangle_of_centered g) states)"

definition rectangle_to_state1 :: "'a GridWorld_scheme \<Rightarrow> int \<Rightarrow> error + real list" where
  "rectangle_to_state1 g r =
     thn (unravel_index r (num_points g)) (\<lambda>ijk. Inr (lattice_state g ijk))"

definition rectangle_to_state :: "'a GridWorld_scheme \<Rightarrow> int list \<Rightarrow> error + real list list" where
  "rectangle_to_state g rectangles = mapM (rectangle_to_state1 g) rectangles"

definition rectangle_corner_index1 :: "'a GridWorld_scheme \<Rightarrow> int \<Rightarrow> error + int" where
  "rectangle_corner_index1 g r =
     thn (unravel_index r (num_points g)) (\<lambda>ijk. ravel_multi_index ijk (vertex_dims g))"

definition rectangle_corner_index :: "'a GridWorld_scheme \<Rightarrow> int list \<Rightarrow> error + int list" where
  "rectangle_corner_index g rectangles = mapM (rectangle_corner_index1 g) rectangles"

text \<open>
  The grids the constructor is documented for: one cell count per dimension, at least one
  dimension, every count positive and every interval of positive width.
\<close>

definition grid_ok :: "'a GridWorld_scheme \<Rightarrow> bool" where
  "grid_ok g \<longleftrightarrow>
     limits g \<noteq> [] \<and> length (num_points g) = length (limits g) \<and>
     list_all (\<lambda>(lo, hi). lo < hi) (limits g) \<and> list_all (\<lambda>n. 1 \<le> n) (num_points g)"

subsection \<open>Array helpers\<close>

text \<open>
  Reading one element of an array by an integer position, as plain and as fancy
  indexing do: positions \<open>-len .. -1\<close> count back from the end, anything outside
  \<open>-len .. len - 1\<close> raises \<^verbatim>\<open>IndexError\<close>.
\<close>

definition py_get :: "'a list \<Rightarrow> int \<Rightarrow> error + 'a" where
  "py_get xs i =
     (if 0 \<le> i \<and> i < int (length xs) then Inr (xs ! nat i)
      else if i < 0 \<and> - int (length xs) \<le> i then Inr (xs ! nat (i + int (length xs)))
      else Inl IndexError)"

text \<open>\<^verbatim>\<open>np.diag\<close> of a vector, and sklearn's \<^verbatim>\<open>cartesian\<close> (the first array varies slowest).\<close>

definition np_diag :: "real list \<Rightarrow> real list list" where
  "np_diag v = map (\<lambda>i. map (\<lambda>j. if i = j then v ! i else 0) [0..<length v]) [0..<length v]"

definition cartesian :: "real list list \<Rightarrow> real list list" where
  "cartesian arrays = product_lists arrays"

text \<open>
  \<^verbatim>\<open>np.einsum('ij,ijk->ik', ...)\<close> for one \<open>i\<close>: a row vector times an \<open>n \<times> n\<close> matrix
  (a list of rows).
\<close>

definition vecmat :: "nat \<Rightarrow> real list \<Rightarrow> real list list \<Rightarrow> real list" where
  "vecmat n d H = map (\<lambda>k. sum_list (map (\<lambda>j. d ! j * H ! j ! k) [0..<n])) [0..<n]"

definition dot :: "real list \<Rightarrow> real list \<Rightarrow> real" where
  "dot w v = sum_list (map2 (*) w v)"

text \<open>\<^verbatim>\<open>np.reshape(x, (nrows, -1))\<close> of a flat array, in C order.\<close>

definition np_reshape :: "real list \<Rightarrow> nat \<Rightarrow> error + real list list" where
  "np_reshape x nrows =
     (if nrows = 0 \<or> length x mod nrows \<noteq> 0 then Inl ValueError
      else let k = length x div nrows in Inr (map (\<lambda>d. take k (drop (d * k) x)) [0..<nrows]))"

subsection \<open>scipy's sparse matrices in coordinate format\<close>

text \<open>
  \<^verbatim>\<open>sparse.coo_matrix((data, (row, col)), shape=(M, N))\<close> keeps the triples as given
  and rejects an index outside the shape; \<^verbatim>\<open>dot\<close> sums duplicate entries.
\<close>

record coo_matrix =
  coo_data :: "real list"
  coo_row :: "int list"
  coo_col :: "int list"
  coo_shape :: "nat \<times> nat"

definition coo_matrix_init ::
  "real list \<Rightarrow> int list \<Rightarrow> int list \<Rightarrow> nat \<times> nat \<Rightarrow> error + coo_matrix" where
  "coo_matrix_init data row col shape =
     (if length row \<noteq> length data \<or> length col \<noteq> length data then Inl ValueError
      else if list_ex (\<lambda>r. r < 0 \<or> int (fst shape) \<le> r) row then Inl ValueError
      else if list_ex (\<lambda>c. c < 0 \<or> int (snd shape) \<le> c) col then Inl ValueError
      else Inr \<lparr>coo_data = data, coo_row = row, coo_col = col, coo_shape = shape\<rparr>)"

definition coo_dot :: "coo_matrix \<Rightarrow> real list \<Rightarrow> error + real list" where
  "coo_dot B v =
     (if length v \<noteq> snd (coo_shape B) then Inl ValueError
      else Inr (map (\<lambda>i. sum_list (map (\<lambda>(d, r, c). if r = int i then d * v ! nat c else 0)
                                    (zip (coo_data B) (zip (coo_row B) (coo_col B)))))
                  [0..<fst (coo_shape B)]))"

subsection \<open>PiecewiseConstant\<close>

definition PiecewiseConstant_evaluate ::
  "'a GridWorld_scheme \<Rightarrow> real list list \<Rightarrow> error + real list" where
  "PiecewiseConstant_evaluate g points =
     thn (state_to_index g points) (\<lambda>nodes.
       case vertex_values g of None \<Rightarrow> Inl TypeError
       | Some vv \<Rightarrow> mapM (py_get vv) nodes)"

definition PiecewiseConstant_gradient ::
  "'a GridWorld_scheme \<Rightarrow> real list list \<Rightarrow> error + real list list" where
  "PiecewiseConstant_gradient g points =
     (if nindex g < 0 then Inl ValueError
      else Inr (replicate (length points) (replicate (nat (nindex g)) 0)))"

subsection \<open>Triangulation\<close>

text \<open>
  What the code reads of a \<^verbatim>\<open>scipy.spatial.Delaunay\<close> object: its input points, its
  simplices (rows of point numbers) and its point location, which answers \<open>-1\<close> for a
  point it finds in no simplex.
\<close>

record delaunay =
  dl_points :: "real list list"
  dl_simplices :: "nat list list"
  dl_find_simplex :: "real list \<Rightarrow> int"

definition dl_nsimplex :: "delaunay \<Rightarrow> int" where
  "dl_nsimplex d = int (length (dl_simplices d))"

record Triangulation = GridWorld +
  triangulation :: delaunay
  unit_simplices :: "int list list"
  hyperplanes :: "real list list list"
  project :: bool

definition nsimplex :: "Triangulation \<Rightarrow> int" where
  "nsimplex T = dl_nsimplex (triangulation T) * nrectangles T"

text \<open>
  \<^verbatim>\<open>_triangulation_simplex_indices\<close>. The loop writes \<open>index_mapping[i]\<close> wherever the
  scipy simplices hold \<open>i\<close>; an entry that names no point stays as \<^verbatim>\<open>np.empty_like\<close>
  left it, which is the unspecified value of \<open>!\<close> out of range.
\<close>

definition triangulation_simplex_indices :: "Triangulation \<Rightarrow> error + int list list" where
  "triangulation_simplex_indices T =
     thn (state_to_index T (map (\<lambda>p. map2 (+) p (offset T)) (dl_points (triangulation T))))
       (\<lambda>index_mapping.
          Inr (map (map (\<lambda>i. index_mapping ! i)) (dl_simplices (triangulation T))))"

text \<open>\<^verbatim>\<open>simplex_points[1:] - simplex_points[:1]\<close>.\<close>

definition edge_matrix :: "real list list \<Rightarrow> real list list" where
  "edge_matrix simplex_points =
     (case take 1 simplex_points of
        [origin] \<Rightarrow> map (\<lambda>x. map2 (-) x origin) (drop 1 simplex_points)
      | _ \<Rightarrow> [])"

definition update_hyperplanes ::
  "(real list list \<Rightarrow> error + real list list) \<Rightarrow> Triangulation \<Rightarrow> error + Triangulation" where
  "update_hyperplanes linalg_inv T =
     thn (mapM (\<lambda>simplex. thn (index_to_state T simplex)
                  (\<lambda>simplex_points. linalg_inv (edge_matrix simplex_points)))
            (unit_simplices T))
       (\<lambda>hs. Inr (T\<lparr>hyperplanes := hs\<rparr>))"

definition Triangulation_init ::
  "(real list list \<Rightarrow> delaunay) \<Rightarrow> (real list list \<Rightarrow> error + real list list) \<Rightarrow>
   (real \<times> real) list \<Rightarrow> int list \<Rightarrow> real list option \<Rightarrow> bool \<Rightarrow> error + Triangulation" where
  "Triangulation_init spatial_Delaunay linalg_inv lims npts vv proj =
     (let g = \<lparr>limits = lims, num_points = npts, vertex_values = vv\<rparr>;
          hyperrectangle_corners = cartesian (np_diag (unit_maxes g));
          T = \<lparr>limits = lims, num_points = npts, vertex_values = vv,
               triangulation = spatial_Delaunay hyperrectangle_corners,
               unit_simplices = [], hyperplanes = [], project = proj\<rparr>
      in thn (triangulation_simplex_indices T)
           (\<lambda>us. update_hyperplanes linalg_inv (T\<lparr>unit_simplices := us\<rparr>)))"

definition find_simplex :: "Triangulation \<Rightarrow> real list list \<Rightarrow> error + int list" where
  "find_simplex T points =
     (let points = center_states T points True;
          unit_coordinates = map (\<lambda>p. map2 fmod p (unit_maxes T)) points;
          simplex_ids = map (dl_find_simplex (triangulation T)) unit_coordinates
      in thn (state_to_rectangle T points False)
           (\<lambda>rectangles.
              Inr (map2 (\<lambda>s r. s + r * dl_nsimplex (triangulation T)) simplex_ids rectangles)))"

definition simplices :: "Triangulation \<Rightarrow> int list \<Rightarrow> error + int list list" where
  "simplices T indices =
     (let unit_indices = map (\<lambda>i. i mod dl_nsimplex (triangulation T)) indices
      in thn (mapM (py_get (unit_simplices T)) unit_indices)
           (\<lambda>rows.
              let rectangles = map (\<lambda>i. i div dl_nsimplex (triangulation T)) indices
              in thn (rectangle_corner_index T rectangles)
                   (\<lambda>corner_index.
                      Inr (map2 (\<lambda>simplex c. map (\<lambda>v. v + c) simplex) rows corner_index))))"

definition get_weights ::
  "Triangulation \<Rightarrow> real list list \<Rightarrow> error + (real list list \<times> int list list)" where
  "get_weights T points =
     thn (find_simplex T points) (\<lambda>simplex_ids.
     let points = (if project T then map (clip_to_limits T) points else points) in
     thn (simplices T simplex_ids) (\<lambda>simpl.
     thn (mapM (\<lambda>s. py_get s 0) simpl) (\<lambda>firsts.
     thn (index_to_state T firsts) (\<lambda>origins.
     let simplex_ids = map (\<lambda>i. i mod dl_nsimplex (triangulation T)) simplex_ids in
     thn (mapM (py_get (hyperplanes T)) simplex_ids) (\<lambda>hplanes.
     let rest = map2 (vecmat (ndim T)) (map2 (map2 (-)) points origins) hplanes;
         weights = map (\<lambda>w. (1 - sum_list w) # w) rest
     in Inr (weights, simpl))))))"

text \<open>\<^verbatim>\<open>self.vertex_values[simplices]\<close>; \<^verbatim>\<open>None\<close> cannot be indexed.\<close>

definition values_at :: "'a GridWorld_scheme \<Rightarrow> int list list \<Rightarrow> error + real list list" where
  "values_at g simpl =
     (case vertex_values g of None \<Rightarrow> Inl TypeError
      | Some vv \<Rightarrow> mapM (mapM (py_get vv)) simpl)"

definition evaluate :: "Triangulation \<Rightarrow> real list list \<Rightarrow> error + real list" where
  "evaluate T points =
     thn (get_weights T points) (\<lambda>(weights, simpl).
     thn (values_at T simpl) (\<lambda>vals. Inr (map2 dot weights vals)))"


definition get_weights_gradient ::
  "Triangulation \<Rightarrow> real list list \<Rightarrow> error + (real list list list \<times> int list list)" where
  "get_weights_gradient T points =
     thn (find_simplex T points) (\<lambda>simplex_ids.
     thn (simplices T simplex_ids) (\<lambda>simpl.
     let simplex_ids = map (\<lambda>i. i mod dl_nsimplex (triangulation T)) simplex_ids in
     thn (mapM (py_get (hyperplanes T)) simplex_ids) (\<lambda>hplanes.
     let weights = map (map (\<lambda>row. (- sum_list row) # row)) hplanes
     in Inr (weights, simpl))))"

definition gradient :: "Triangulation \<Rightarrow> real list list \<Rightarrow> error + real list list" where
  "gradient T points =
     thn (get_weights_gradient T points) (\<lambda>(weights, simpl).
     thn (values_at T simpl) (\<lambda>vals.
       Inr (map2 (\<lambda>w v. map (\<lambda>row. dot row v) w) weights vals)))"

definition gradient_constraint :: "Triangulation \<Rightarrow> real list list \<Rightarrow> error + coo_matrix" where
  "gradient_constraint T points =
     thn (get_weights_gradient T points) (\<lambda>(weights, simpl).
     let nsimp = ndim T + 1;
         npoints = length simpl;
         rows = concat (map (\<lambda>i. replicate nsimp (int i)) [0..<npoints * ndim T]);
         cols = concat (map (\<lambda>s. concat (replicate (ndim T) s)) simpl)
     in coo_matrix_init (concat (map concat weights)) rows cols
          (ndim T * npoints, nat (nindex T)))"

subsection \<open>Well-formed objects and auxiliary notions\<close>

text \<open>
  The multi-index of a cell and the flat vertex index of its bottom-left corner, as
  \<^verbatim>\<open>rectangle_corner_index\<close> computes it when the cell index is in range.
\<close>

definition cell_index :: "'a GridWorld_scheme \<Rightarrow> int \<Rightarrow> int list" where
  "cell_index g r = unravel_c r (num_points g)"

definition corner_of :: "'a GridWorld_scheme \<Rightarrow> int \<Rightarrow> int" where
  "corner_of g r = ravel_c (cell_index g r) (vertex_dims g)"

text \<open>A vertex index of the cell at the grid origin: every coordinate is 0 or 1.\<close>

definition is_corner :: "'a GridWorld_scheme \<Rightarrow> int \<Rightarrow> bool" where
  "is_corner g v \<longleftrightarrow>
     0 \<le> v \<and> v < nindex g \<and> list_all (\<lambda>k. k = 0 \<or> k = 1) (unravel_c v (vertex_dims g))"

definition matmul :: "nat \<Rightarrow> real list list \<Rightarrow> real list list \<Rightarrow> real list list" where
  "matmul n A B =
     map (\<lambda>i. map (\<lambda>k. sum_list (map (\<lambda>j. A ! i ! j * B ! j ! k) [0..<n])) [0..<n]) [0..<n]"

definition identity :: "nat \<Rightarrow> real list list" where
  "identity n = map (\<lambda>i. map (\<lambda>j. if i = j then 1 else 0) [0..<n]) [0..<n]"

text \<open>The edge matrix that \<^verbatim>\<open>_update_hyperplanes\<close> inverts for a unit simplex.\<close>

definition unit_edges :: "'a GridWorld_scheme \<Rightarrow> int list \<Rightarrow> real list list" where
  "unit_edges g simplex =
     edge_matrix (map (\<lambda>v. lattice_state g (unravel_c v (vertex_dims g))) simplex)"

text \<open>
  What the constructor leaves behind on a documented grid when scipy returns simplices
  over the corners it was given and numpy returns inverses: every unit simplex has
  \<open>ndim + 1\<close> vertices, all corners of the cell at the origin, and every cached hyperplane
  matrix is the two-sided inverse of its simplex's edge matrix.
\<close>

definition Triangulation_ok :: "Triangulation \<Rightarrow> bool" where
  "Triangulation_ok T \<longleftrightarrow>
     grid_ok T \<and> unit_simplices T \<noteq> [] \<and>
     length (dl_simplices (triangulation T)) = length (unit_simplices T) \<and>
     list_all (\<lambda>s. length s = ndim T + 1 \<and> list_all (is_corner T) s) (unit_simplices T) \<and>
     list_all2 (\<lambda>s H. length H = ndim T \<and> list_all (\<lambda>r. length r = ndim T) H \<and>
                  matmul (ndim T) H (unit_edges T s) = identity (ndim T) \<and>
                  matmul (ndim T) (unit_edges T s) H = identity (ndim T))
       (unit_simplices T) (hyperplanes T)"

text \<open>
  Closed forms of what the query path computes for a simplex id \<open>g\<close> in range: the vertex
  row of \<^verbatim>\<open>simplices\<close>, the point that is blended, the physical state of a vertex, the
  weight row of \<^verbatim>\<open>_get_weights\<close> and the gradient weights of
  \<^verbatim>\<open>_get_weights_gradient\<close>. The lemmas below show that the code returns these.
\<close>

definition simplex_vertices :: "Triangulation \<Rightarrow> int \<Rightarrow> int list" where
  "simplex_vertices T g =
     map (\<lambda>v. v + corner_of T (g div dl_nsimplex (triangulation T)))
       (unit_simplices T ! nat (g mod dl_nsimplex (triangulation T)))"


definition vertex_state :: "'a GridWorld_scheme \<Rightarrow> int \<Rightarrow> real list" where
  "vertex_state g v = lattice_state g (unravel_c v (vertex_dims g))"


definition gradient_rows :: "Triangulation \<Rightarrow> int \<Rightarrow> real list list" where
  "gradient_rows T g =
     map (\<lambda>row. (- sum_list row) # row)
       (hyperplanes T ! nat (g mod dl_nsimplex (triangulation T)))"

text \<open>
  Conditions under which a query cannot fail. The clip of \<^verbatim>\<open>_center_states\<close> uses the
  absolute margin \<open>2 eps\<close>, so every interval has to be at least that wide; the batch has
  one row of \<open>ndim\<close> coordinates per point; and scipy's point location has to answer with
  a simplex of the reference triangulation for every point of the half-open reference
  cell.
\<close>

definition margin_ok :: "'a GridWorld_scheme \<Rightarrow> bool" where
  "margin_ok g \<longleftrightarrow> list_all (\<lambda>(lo, hi). 2 * eps \<le> hi - lo) (limits g)"

definition points_ok :: "'a GridWorld_scheme \<Rightarrow> real list list \<Rightarrow> bool" where
  "points_ok g ps \<longleftrightarrow> list_all (\<lambda>p. length p = ndim g) ps"

definition in_unit_cell :: "'a GridWorld_scheme \<Rightarrow> real list \<Rightarrow> bool" where
  "in_unit_cell g x \<longleftrightarrow>
     length x = ndim g \<and> list_all2 (\<lambda>c u. 0 \<le> c \<and> c < u) x (unit_maxes g)"


text \<open>One stored triple's share of entry \<open>i\<close> of a sparse matrix-vector product.\<close>

definition coo_term :: "real list \<Rightarrow> nat \<Rightarrow> real \<times> int \<times> int \<Rightarrow> real" where
  "coo_term v i = (\<lambda>(d, r, c). if r = int i then d * v ! nat c else 0)"



subsection \<open>A concrete grid\<close>

text \<open>
  The unit square with two cells per axis and the vertex values \<open>x + 2 y\<close>; one Delaunay
  triangulation of its reference cell (the diagonal through the origin), and the inverse
  of a \<open>2 \<times> 2\<close> matrix.
\<close>

definition example_values :: "real list" where
  "example_values = [0, 1, 2, 1 / 2, 3 / 2, 5 / 2, 1, 2, 3]"

definition example_grid :: GridWorld where
  "example_grid = \<lparr>limits = [(0, 1), (0, 1)], num_points = [2, 2],
                    vertex_values = Some example_values\<rparr>"

definition example_delaunay :: "real list list \<Rightarrow> delaunay" where
  "example_delaunay pts =
     \<lparr>dl_points = pts, dl_simplices = [[2, 0, 1], [2, 3, 1]],
      dl_find_simplex = (\<lambda>p. if 0 \<le> p ! 0 \<and> p ! 0 \<le> 1 / 2 \<and> 0 \<le> p ! 1 \<and> p ! 1 \<le> 1 / 2
                               then (if p ! 1 \<le> p ! 0 then 0 else 1) else - 1)\<rparr>"

definition example_inv :: "real list list \<Rightarrow> error + real list list" where
  "example_inv M =
     (case M of
        [[a, b], [c, d]] \<Rightarrow>
          (if a * d - b * c = 0 then Inl LinAlgError
           else Inr [[d / (a * d - b * c), - b / (a * d - b * c)],
                     [- c / (a * d - b * c), a / (a * d - b * c)]])
      | _ \<Rightarrow> Inl LinAlgError)"

definition example_tri :: Triangulation where
  "example_tri =
     \<lparr>limits = [(0, 1), (0, 1)], num_points = [2, 2], vertex_values = Some example_values,
      triangulation = example_delaunay [[1 / 2, 0], [1 / 2, 1 / 2], [0, 0], [0, 1 / 2]],
      unit_simplices = [[0, 3, 4], [0, 1, 4]],
      hyperplanes = [[[2, 0], [- 2, 2]], [[- 2, 2], [2, 0]]],
      project = False\<rparr>"

subsection \<open>A narrow grid\<close>

text \<open>
  A grid whose first interval is \<open>[0, 2^-53]\<close>, with one cell per axis, and the
  triangulation object the constructor builds for it from a Delaunay triangulation of a
  rectangle's four corners (in the order \<^verbatim>\<open>cartesian(np.diag(unit_maxes))\<close> lists them).
\<close>

definition narrow_grid :: GridWorld where
  "narrow_grid = \<lparr>limits = [(0, 1 / 2 ^ 53), (0, 1)], num_points = [1, 1],
                   vertex_values = None\<rparr>"

definition rectangle_delaunay :: "real list list \<Rightarrow> delaunay" where
  "rectangle_delaunay pts =
     \<lparr>dl_points = pts, dl_simplices = [[2, 0, 1], [2, 3, 1]],
      dl_find_simplex = (\<lambda>p. let u0 = pts ! 1 ! 0; u1 = pts ! 1 ! 1 in
          if 0 \<le> p ! 0 \<and> p ! 0 \<le> u0 \<and> 0 \<le> p ! 1 \<and> p ! 1 \<le> u1
          then (if p ! 1 * u0 \<le> p ! 0 * u1 then 0 else 1) else - 1)\<rparr>"

definition narrow_tri :: Triangulation where
  "narrow_tri =
     \<lparr>limits = [(0, 1 / 2 ^ 53), (0, 1)], num_points = [1, 1], vertex_values = None,
      triangulation = rectangle_delaunay [[1 / 2 ^ 53, 0], [1 / 2 ^ 53, 1], [0, 0], [0, 1]],
      unit_simplices = [[0, 2, 3], [0, 1, 3]],
      hyperplanes = [[[2 ^ 53, 0], [- 1, 1]], [[- (2 ^ 53), 2 ^ 53], [1, 0]]],
      project = False\<rparr>"

section \<open>Properties\<close>

subsection \<open>Mixed-radix indexing\<close>

lemma prod_list_pos: "list_all (\<lambda>d. 0 < d) ds \<Longrightarrow> 0 < (prod_list ds :: int)"
  by (induction ds) auto

lemma length_unravel_c [simp]: "length (unravel_c i dims) = length dims"
  by (induction dims arbitrary: i) auto

lemma unravel_c_bounds:
  "list_all (\<lambda>d. 0 < d) dims \<Longrightarrow> 0 \<le> i \<Longrightarrow> i < prod_list dims \<Longrightarrow>
   list_all2 (\<lambda>k d. 0 \<le> k \<and> k < d) (unravel_c i dims) dims"
proof (induction dims arbitrary: i)
  case Nil
  then show ?case by simp
next
  case (Cons d ds)
  have p: "0 < prod_list ds" using Cons.prems(1) by (simp add: prod_list_pos)
  have a: "0 \<le> i div prod_list ds" using Cons.prems(2) p by (simp add: pos_imp_zdiv_nonneg_iff)
  have b: "i div prod_list ds < d"
  proof -
    have e: "prod_list ds * (i div prod_list ds) + i mod prod_list ds = i" by simp
    have m: "0 \<le> i mod prod_list ds" using p by simp
    have lt: "i < prod_list ds * d" using Cons.prems(3) by (simp add: mult.commute)
    have "prod_list ds * (i div prod_list ds) < prod_list ds * d"
      using e m lt by linarith
    then show ?thesis using p by (simp add: mult_less_cancel_left_pos)
  qed
  have c: "list_all2 (\<lambda>k d. 0 \<le> k \<and> k < d) (unravel_c (i mod prod_list ds) ds) ds"
    using Cons.prems(1) p by (intro Cons.IH) auto
  show ?case using a b c by simp
qed

lemma ravel_unravel_c:
  "list_all (\<lambda>d. 0 < d) dims \<Longrightarrow> 0 \<le> i \<Longrightarrow> i < prod_list dims \<Longrightarrow>
   ravel_c (unravel_c i dims) dims = i"
proof (induction dims arbitrary: i)
  case Nil
  then show ?case by simp
next
  case (Cons d ds)
  have p: "0 < prod_list ds" using Cons.prems(1) by (simp add: prod_list_pos)
  have "ravel_c (unravel_c (i mod prod_list ds) ds) ds = i mod prod_list ds"
    using Cons.prems(1) p by (intro Cons.IH) auto
  then show ?case by simp
qed

lemma ravel_c_bounds:
  "list_all2 (\<lambda>k d. 0 \<le> k \<and> k < d) m dims \<Longrightarrow>
   0 \<le> ravel_c m dims \<and> ravel_c m dims < (if dims = [] then 1 else prod_list dims)"
proof (induction m dims rule: list_all2_induct)
  case Nil
  then show ?case by simp
next
  case (Cons k m d ds)
  let ?P = "if ds = [] then 1 else prod_list ds"
  have P: "?P = prod_list ds" by simp
  have r: "0 \<le> ravel_c m ds" "ravel_c m ds < prod_list ds" using Cons.IH P by auto
  have p: "0 < prod_list ds" using r by linarith
  have "k * prod_list ds + ravel_c m ds < (k + 1) * prod_list ds"
    using r by (simp add: algebra_simps)
  also have "\<dots> \<le> d * prod_list ds"
    using Cons.hyps(1) p by (intro mult_right_mono) auto
  finally have "k * prod_list ds + ravel_c m ds < d * prod_list ds" .
  moreover have "0 \<le> k * prod_list ds + ravel_c m ds" using Cons.hyps(1) p r by simp
  ultimately show ?case by simp
qed

lemma unravel_ravel_c:
  "list_all2 (\<lambda>k d. 0 \<le> k \<and> k < d) m dims \<Longrightarrow> unravel_c (ravel_c m dims) dims = m"
proof (induction m dims rule: list_all2_induct)
  case Nil
  then show ?case by simp
next
  case (Cons k m d ds)
  have r: "0 \<le> ravel_c m ds" "ravel_c m ds < prod_list ds"
    using ravel_c_bounds[OF Cons.hyps(2)] by (auto split: if_splits)
  have "(k * prod_list ds + ravel_c m ds) div prod_list ds = k"
    using r by (simp add: div_pos_pos_trivial)
  moreover have "(k * prod_list ds + ravel_c m ds) mod prod_list ds = ravel_c m ds"
    using r by (simp add: mod_pos_pos_trivial)
  ultimately show ?case using Cons.IH by simp
qed

lemma ravel_c_add:
  "length a = length dims \<Longrightarrow> length b = length dims \<Longrightarrow>
   ravel_c (map2 (+) a b) dims = ravel_c a dims + ravel_c b dims"
proof (induction a dims arbitrary: b rule: list_induct2)
  case Nil
  then show ?case by simp
next
  case (Cons x xs d ds)
  then obtain y ys where b: "b = y # ys" by (cases b) auto
  with Cons show ?case by (simp add: algebra_simps)
qed

subsection \<open>Vertex indices and physical states\<close>

lemma rint_of_int [simp]: "rint (of_int k) = k"
  by (simp add: rint_def)

lemma thn_Inr [simp]: "thn (Inr x) f = f x"
  by (simp add: thn_def)

lemma thn_Inl [simp]: "thn (Inl e) f = Inl e"
  by (simp add: thn_def)

lemma mapM_Inr_iff:
  "mapM f xs = Inr ys \<longleftrightarrow> list_all2 (\<lambda>x y. f x = Inr y) xs ys"
proof (induction xs arbitrary: ys)
  case Nil
  then show ?case by auto
next
  case (Cons x xs)
  have IH: "\<And>zs. list_all2 (\<lambda>x y. f x = Inr y) xs zs \<longleftrightarrow> mapM f xs = Inr zs"
    using Cons.IH by simp
  show ?case
    by (cases ys; cases "f x"; cases "mapM f xs") (auto simp: IH)
qed

lemma length_unit_maxes [simp]:
  "grid_ok g \<Longrightarrow> length (unit_maxes g) = length (limits g)"
  by (simp add: unit_maxes_def grid_ok_def)

lemma length_offset [simp]: "length (offset g) = length (limits g)"
  by (simp add: offset_def)

lemma length_vertex_dims [simp]: "length (vertex_dims g) = length (num_points g)"
  by (simp add: vertex_dims_def)

lemma grid_ok_nth:
  assumes "grid_ok g" "k < length (limits g)"
  shows "fst (limits g ! k) < snd (limits g ! k)" "1 \<le> num_points g ! k"
    "unit_maxes g ! k = (snd (limits g ! k) - fst (limits g ! k)) / of_int (num_points g ! k)"
    "0 < unit_maxes g ! k" "offset g ! k = fst (limits g ! k)"
proof -
  show a: "fst (limits g ! k) < snd (limits g ! k)"
    using assms by (auto simp: grid_ok_def list_all_length split: prod.splits)
  show b: "1 \<le> num_points g ! k"
    using assms by (auto simp: grid_ok_def list_all_length)
  show c: "unit_maxes g ! k = (snd (limits g ! k) - fst (limits g ! k)) / of_int (num_points g ! k)"
    using assms by (simp add: unit_maxes_def grid_ok_def split: prod.splits)
  show "0 < unit_maxes g ! k" using a b by (simp add: c)
  show "offset g ! k = fst (limits g ! k)" using assms by (simp add: offset_def)
qed

lemma vertex_dims_pos: "grid_ok g \<Longrightarrow> list_all (\<lambda>d. 0 < d) (vertex_dims g)"
  by (auto simp: grid_ok_def vertex_dims_def list_all_iff)


lemma state_to_index1_lattice:
  assumes ok: "grid_ok g" and len: "length ijk = length (limits g)"
    and rng: "list_all2 (\<lambda>k d. 0 \<le> k \<and> k < d) ijk (vertex_dims g)"
  shows "state_to_index1 g (lattice_state g ijk) = Inr (ravel_c ijk (vertex_dims g))"
proof -
  let ?st = "lattice_state g ijk"
  let ?n = "length (limits g)"
  have lnp: "length (num_points g) = ?n" using ok by (simp add: grid_ok_def)
  have lst: "length ?st = ?n" using ok len by (simp add: lattice_state_def)
  have row: "map rint (map2 (/) (map2 (-) (map2 (\<lambda>s (lo, hi). clip s lo hi) ?st (limits g))
                (offset g)) (unit_maxes g)) = ijk"
  proof (rule nth_equalityI)
    show "length (map rint (map2 (/) (map2 (-) (map2 (\<lambda>s (lo, hi). clip s lo hi) ?st (limits g))
                (offset g)) (unit_maxes g))) = length ijk"
      using ok len lst by simp
  next
    fix k assume "k < length (map rint (map2 (/) (map2 (-) (map2 (\<lambda>s (lo, hi). clip s lo hi) ?st (limits g))
                (offset g)) (unit_maxes g)))"
    then have k: "k < ?n" using ok len lst by simp
    note G = grid_ok_nth[OF ok k]
    obtain lo hi where lh: "limits g ! k = (lo, hi)" by (cases "limits g ! k")
    let ?m = "ijk ! k" and ?N = "num_points g ! k"
    let ?u = "unit_maxes g ! k"
    have u: "?u = (hi - lo) / of_int ?N" "0 < ?u" "lo < hi" "1 \<le> ?N" "offset g ! k = lo"
      using G lh by auto
    have mr: "0 \<le> ?m" "?m \<le> ?N"
      using rng k lnp by (auto simp: list_all2_conv_all_nth vertex_dims_def)
    have sk: "?st ! k = of_int ?m * ?u + lo"
      using k len ok u by (simp add: lattice_state_def)
    have "of_int ?m * ?u \<le> of_int ?N * ?u"
      using mr u by (intro mult_right_mono) auto
    also have "of_int ?N * ?u = hi - lo" using u by simp
    finally have le: "of_int ?m * ?u + lo \<le> hi" by simp
    have ge: "lo \<le> of_int ?m * ?u + lo" using mr u by simp
    have cl: "clip (?st ! k) lo hi = of_int ?m * ?u + lo"
      using le ge by (simp add: clip_def sk)
    have "(clip (?st ! k) lo hi - lo) / ?u = of_int ?m"
      using u by (simp add: cl)
    then show "map rint (map2 (/) (map2 (-) (map2 (\<lambda>s (lo, hi). clip s lo hi) ?st (limits g))
                (offset g)) (unit_maxes g)) ! k = ijk ! k"
      using k len lst ok lh u by simp
  qed
  have nex: "\<not> list_ex (\<lambda>(i, d). i < 0 \<or> d \<le> i) (zip ijk (vertex_dims g))"
    using rng by (auto simp: list_ex_iff list_all2_iff)
  show ?thesis
    unfolding state_to_index1_def Let_def clip_to_limits_def row ravel_multi_index_def
    using nex len lnp by simp
qed

lemma index_to_state1_eq:
  "0 \<le> v \<Longrightarrow> v < nindex g \<Longrightarrow>
   index_to_state1 g v = Inr (lattice_state g (unravel_c v (vertex_dims g)))"
  by (simp add: index_to_state1_def unravel_index_def nindex_def)





subsection \<open>Cells and their corners\<close>

lemma num_points_pos: "grid_ok g \<Longrightarrow> list_all (\<lambda>d. 0 < d) (num_points g)"
  by (auto simp: grid_ok_def list_all_iff)

lemma cell_index_bounds:
  assumes "grid_ok g" "0 \<le> r" "r < nrectangles g"
  shows "list_all2 (\<lambda>k d. 0 \<le> k \<and> k < d) (cell_index g r) (num_points g)"
  unfolding cell_index_def
  using num_points_pos[OF assms(1)] assms(2,3) unfolding nrectangles_def
  by (rule unravel_c_bounds)

lemma cell_index_vertex_bounds:
  assumes "grid_ok g" "0 \<le> r" "r < nrectangles g"
  shows "list_all2 (\<lambda>k d. 0 \<le> k \<and> k < d) (cell_index g r) (vertex_dims g)"
  using cell_index_bounds[OF assms]
  by (auto simp: list_all2_conv_all_nth vertex_dims_def)

lemma in_range_no_ex:
  "list_all2 (\<lambda>k d. 0 \<le> k \<and> k < d) (m :: int list) dims \<Longrightarrow>
   \<not> list_ex (\<lambda>(i, d). i < 0 \<or> d \<le> i) (zip m dims)"
  by (auto simp: list_ex_iff list_all2_iff)

lemma ravel_multi_index_in_range:
  "list_all2 (\<lambda>k d. 0 \<le> k \<and> k < d) m dims \<Longrightarrow>
   ravel_multi_index m dims = Inr (ravel_c m dims)"
  using in_range_no_ex[of m dims]
  by (simp add: ravel_multi_index_def list_all2_lengthD)

lemma rectangle_corner_index1_eq:
  assumes "grid_ok g" "0 \<le> r" "r < nrectangles g"
  shows "rectangle_corner_index1 g r = Inr (corner_of g r)"
  using ravel_multi_index_in_range[OF cell_index_vertex_bounds[OF assms]] assms(2,3)
  by (simp add: rectangle_corner_index1_def unravel_index_def nrectangles_def
      corner_of_def cell_index_def)



text \<open>A corner of cell 0 moved by a cell's corner index.\<close>

lemma corner_shift:
  assumes ok: "grid_ok g" and r: "0 \<le> r" "r < nrectangles g" and v: "is_corner g v"
  defines "e \<equiv> unravel_c v (vertex_dims g)"
  defines "m \<equiv> cell_index g r"
  shows "list_all2 (\<lambda>k d. 0 \<le> k \<and> k < d) (map2 (+) e m) (vertex_dims g)"
    and "v + corner_of g r = ravel_c (map2 (+) e m) (vertex_dims g)"
    and "0 \<le> v + corner_of g r" and "v + corner_of g r < nindex g"
    and "unravel_c (v + corner_of g r) (vertex_dims g) = map2 (+) e m"
proof -
  have pos: "list_all (\<lambda>d. 0 < d) (vertex_dims g)" using ok by (rule vertex_dims_pos)
  have vr: "0 \<le> v" "v < prod_list (vertex_dims g)" using v by (auto simp: is_corner_def nindex_def)
  have le: "length e = length (vertex_dims g)" by (simp add: e_def)
  have mb: "list_all2 (\<lambda>k d. 0 \<le> k \<and> k < d) m (num_points g)"
    unfolding m_def by (rule cell_index_bounds[OF ok r])
  have lm: "length m = length (vertex_dims g)" using mb by (simp add: list_all2_lengthD)
  have e01: "\<And>k. k < length e \<Longrightarrow> e ! k = 0 \<or> e ! k = 1"
    using v by (auto simp: is_corner_def e_def list_all_length)
  show rng: "list_all2 (\<lambda>k d. 0 \<le> k \<and> k < d) (map2 (+) e m) (vertex_dims g)"
  proof (rule list_all2_all_nthI)
    show "length (map2 (+) e m) = length (vertex_dims g)" using le lm by simp
  next
    fix k assume "k < length (map2 (+) e m)"
    then have k: "k < length e" "k < length m" "k < length (num_points g)" using le lm by auto
    have "0 \<le> m ! k" "m ! k < num_points g ! k"
      using mb k by (auto simp: list_all2_conv_all_nth)
    with e01[OF k(1)] k show "0 \<le> map2 (+) e m ! k \<and> map2 (+) e m ! k < vertex_dims g ! k"
      by (auto simp: vertex_dims_def)
  qed
  have "v = ravel_c e (vertex_dims g)"
    unfolding e_def using ravel_unravel_c[OF pos vr] by simp
  moreover have "corner_of g r = ravel_c m (vertex_dims g)"
    by (simp add: corner_of_def m_def)
  ultimately show eq: "v + corner_of g r = ravel_c (map2 (+) e m) (vertex_dims g)"
    using ravel_c_add[OF le lm] by simp
  have ne: "vertex_dims g \<noteq> []" using ok by (auto simp: grid_ok_def vertex_dims_def)
  from ravel_c_bounds[OF rng] ne
  show "0 \<le> v + corner_of g r" "v + corner_of g r < nindex g"
    by (auto simp: eq nindex_def)
  show "unravel_c (v + corner_of g r) (vertex_dims g) = map2 (+) e m"
    unfolding eq by (rule unravel_ravel_c[OF rng])
qed

lemma lattice_state_add:
  assumes "grid_ok g" "length e = length (limits g)" "length m = length (limits g)"
  shows "lattice_state g (map2 (+) e m) =
         map2 (+) (lattice_state g e) (map2 (-) (lattice_state g m) (offset g))"
proof (rule nth_equalityI)
  show "length (lattice_state g (map2 (+) e m)) =
        length (map2 (+) (lattice_state g e) (map2 (-) (lattice_state g m) (offset g)))"
    using assms by (simp add: lattice_state_def)
next
  fix k assume "k < length (lattice_state g (map2 (+) e m))"
  then have "k < length (limits g)" using assms by (simp add: lattice_state_def)
  then show "lattice_state g (map2 (+) e m) ! k =
        map2 (+) (lattice_state g e) (map2 (-) (lattice_state g m) (offset g)) ! k"
    using assms by (simp add: lattice_state_def algebra_simps)
qed


subsection \<open>Simplices of a cell\<close>

lemma mapM_Inr_map:
  "(\<And>x. x \<in> set xs \<Longrightarrow> f x = Inr (h x)) \<Longrightarrow> mapM f xs = Inr (map h xs)"
  by (induction xs) auto

lemma py_get_nth:
  "0 \<le> i \<Longrightarrow> i < int (length xs) \<Longrightarrow> py_get xs i = Inr (xs ! nat i)"
  by (simp add: py_get_def)

lemma ok_grid: "Triangulation_ok T \<Longrightarrow> grid_ok T"
  by (simp add: Triangulation_ok_def)

lemma ok_nsimplex_pos: "Triangulation_ok T \<Longrightarrow> 0 < dl_nsimplex (triangulation T)"
  by (simp add: Triangulation_ok_def dl_nsimplex_def)

lemma ok_nsimplex_len:
  "Triangulation_ok T \<Longrightarrow> dl_nsimplex (triangulation T) = int (length (unit_simplices T))"
  by (simp add: Triangulation_ok_def dl_nsimplex_def)

lemma ok_unit_simplex:
  assumes "Triangulation_ok T" "u < length (unit_simplices T)"
  shows "length (unit_simplices T ! u) = ndim T + 1"
    and "\<And>v. v \<in> set (unit_simplices T ! u) \<Longrightarrow> is_corner T v"
proof -
  have "unit_simplices T ! u \<in> set (unit_simplices T)" using assms(2) by simp
  then have a: "length (unit_simplices T ! u) = ndim T + 1 \<and>
                list_all (is_corner T) (unit_simplices T ! u)"
    using assms(1) unfolding Triangulation_ok_def list_all_iff by blast
  show "length (unit_simplices T ! u) = ndim T + 1" using a by simp
  show "\<And>v. v \<in> set (unit_simplices T ! u) \<Longrightarrow> is_corner T v"
    using a by (simp add: list_all_iff)
qed


lemma simplex_id_split:
  assumes ok: "Triangulation_ok T" and g: "0 \<le> g" "g < nsimplex T"
  shows "0 \<le> g div dl_nsimplex (triangulation T)"
    and "g div dl_nsimplex (triangulation T) < nrectangles T"
    and "0 \<le> g mod dl_nsimplex (triangulation T)"
    and "g mod dl_nsimplex (triangulation T) < int (length (unit_simplices T))"
    and "nat (g mod dl_nsimplex (triangulation T)) < length (unit_simplices T)"
proof -
  let ?n = "dl_nsimplex (triangulation T)"
  have n: "0 < ?n" using ok by (rule ok_nsimplex_pos)
  show "0 \<le> g div ?n" using g n by (simp add: pos_imp_zdiv_nonneg_iff)
  have e: "?n * (g div ?n) + g mod ?n = g" by simp
  have m: "0 \<le> g mod ?n" using n by simp
  have lt: "g < ?n * nrectangles T" using g by (simp add: nsimplex_def)
  have "?n * (g div ?n) < ?n * nrectangles T" using e m lt by linarith
  then show "g div ?n < nrectangles T" using n by (simp add: mult_less_cancel_left_pos)
  show "0 \<le> g mod ?n" by (rule m)
  show l: "g mod ?n < int (length (unit_simplices T))"
    using n ok_nsimplex_len[OF ok] by (metis pos_mod_bound)
  show "nat (g mod ?n) < length (unit_simplices T)" using m l by linarith
qed

lemma simplices_eq:
  assumes ok: "Triangulation_ok T" and gs: "list_all (\<lambda>g. 0 \<le> g \<and> g < nsimplex T) gs"
  shows "rectangle_corner_index T (map (\<lambda>g. g div dl_nsimplex (triangulation T)) gs)
           = Inr (map (\<lambda>g. corner_of T (g div dl_nsimplex (triangulation T))) gs)"
    and "simplices T gs =
           Inr (map (\<lambda>g. map (\<lambda>v. v + corner_of T (g div dl_nsimplex (triangulation T)))
                            (unit_simplices T ! nat (g mod dl_nsimplex (triangulation T)))) gs)"
proof -
  let ?n = "dl_nsimplex (triangulation T)"
  have g: "\<And>g. g \<in> set gs \<Longrightarrow> 0 \<le> g \<and> g < nsimplex T" using gs by (simp add: list_all_iff)
  have a: "mapM (py_get (unit_simplices T)) (map (\<lambda>i. i mod ?n) gs)
           = Inr (map (\<lambda>i. unit_simplices T ! nat i) (map (\<lambda>i. i mod ?n) gs))"
  proof (rule mapM_Inr_map)
    fix x assume "x \<in> set (map (\<lambda>i. i mod ?n) gs)"
    then obtain g' where "g' \<in> set gs" "x = g' mod ?n" by auto
    then show "py_get (unit_simplices T) x = Inr (unit_simplices T ! nat x)"
      using simplex_id_split(3,4)[OF ok] g by (intro py_get_nth) auto
  qed
  have b0: "mapM (rectangle_corner_index1 T) (map (\<lambda>i. i div ?n) gs)
           = Inr (map (corner_of T) (map (\<lambda>i. i div ?n) gs))"
  proof (rule mapM_Inr_map)
    fix x assume "x \<in> set (map (\<lambda>i. i div ?n) gs)"
    then obtain g' where "g' \<in> set gs" "x = g' div ?n" by auto
    then show "rectangle_corner_index1 T x = Inr (corner_of T x)"
      using simplex_id_split(1,2)[OF ok] g ok_grid[OF ok]
      by (intro rectangle_corner_index1_eq) auto
  qed
  then show b: "rectangle_corner_index T (map (\<lambda>g. g div ?n) gs)
           = Inr (map (\<lambda>g. corner_of T (g div ?n)) gs)"
    by (simp add: rectangle_corner_index_def comp_def)
  have z: "map2 (\<lambda>simplex c. map (\<lambda>v. v + c) simplex)
             (map (\<lambda>i. unit_simplices T ! nat i) (map (\<lambda>i. i mod ?n) gs))
             (map (\<lambda>g. corner_of T (g div ?n)) gs)
           = map (\<lambda>g. map (\<lambda>v. v + corner_of T (g div ?n)) (unit_simplices T ! nat (g mod ?n))) gs"
    by (induction gs) auto
  show "simplices T gs =
           Inr (map (\<lambda>g. map (\<lambda>v. v + corner_of T (g div ?n)) (unit_simplices T ! nat (g mod ?n))) gs)"
    unfolding simplices_def Let_def a thn_Inr b z ..
qed


subsection \<open>The concrete grid, evaluated\<close>

lemmas example_defs = example_tri_def example_grid_def example_values_def example_delaunay_def
  example_inv_def

lemmas grid_defs = grid_ok_def nindex_def vertex_dims_def ndim_def unit_maxes_def offset_def
  offset_limits_def nrectangles_def nsimplex_def dl_nsimplex_def lattice_state_def


lemma example_init:
  "Triangulation_init example_delaunay example_inv [(0, 1), (0, 1)] [2, 2]
     (Some example_values) False = Inr example_tri"
  by (simp add: Triangulation_init_def example_defs grid_defs cartesian_def np_diag_def
      triangulation_simplex_indices_def update_hyperplanes_def state_to_index_def
      state_to_index1_def clip_to_limits_def clip_def rint_def ravel_multi_index_def
      index_to_state_def index_to_state1_def unravel_index_def edge_matrix_def
      upt_rec_numeral Let_def)



subsection \<open>PiecewiseConstant and projection\<close>

text \<open>
  C8. \<^verbatim>\<open>PiecewiseConstant.gradient\<close> should return one \<open>ndim\<close>-vector of zeros per point.
  The code allocates \<^verbatim>\<open>np.zeros((len(points), self.nindex))\<close>: on the concrete grid
  (\<open>ndim = 2\<close>, \<open>nindex = 9\<close>) the row for one point has nine entries, not two.
\<close>

theorem PiecewiseConstant_gradient_shape:
  "PiecewiseConstant_gradient example_grid [[1 / 4, 1 / 4]] = Inr [[0, 0, 0, 0, 0, 0, 0, 0, 0]] \<and>
   ndim example_grid = 2"
  by (simp add: PiecewiseConstant_gradient_def example_defs grid_defs numeral_eq_Suc)

lemma PiecewiseConstant_gradient_rows:
  assumes "PiecewiseConstant_gradient g points = Inr G"
  shows "length G = length points \<and> list_all (\<lambda>row. row = replicate (nat (nindex g)) 0) G"
  using assms by (auto simp: PiecewiseConstant_gradient_def list_all_iff split: if_splits)

lemma clip_idem: "clip (clip a lo hi) lo hi = clip a lo hi"
  by (simp add: clip_def min_def max_def)

lemma clip_center:
  "clip (clip a lo hi - lo) (0 + 2 * eps) (hi - lo - 2 * eps) = clip (a - lo) (0 + 2 * eps) (hi - lo - 2 * eps)"
proof -
  have "0 < eps" by (simp add: eps_def)
  then show ?thesis by (auto simp: clip_def min_def max_def)
qed

lemma clip_to_limits_idem: "clip_to_limits g (clip_to_limits g p) = clip_to_limits g p"
  by (rule nth_equalityI) (auto simp: clip_to_limits_def clip_idem split: prod.splits)

lemma center_row_clip_to_limits:
  "center_row g True (clip_to_limits g p) = center_row g True p"
proof (rule nth_equalityI)
  show "length (center_row g True (clip_to_limits g p)) = length (center_row g True p)"
    by (simp add: center_row_def clip_to_limits_def offset_def offset_limits_def)
next
  fix k assume "k < length (center_row g True (clip_to_limits g p))"
  then have k: "k < length p" "k < length (limits g)"
    by (simp_all add: center_row_def clip_to_limits_def offset_def offset_limits_def)
  obtain lo hi where lh: "limits g ! k = (lo, hi)" by (cases "limits g ! k")
  show "center_row g True (clip_to_limits g p) ! k = center_row g True p ! k"
    using k lh clip_center[of "p ! k" lo hi]
    by (simp add: center_row_def clip_to_limits_def offset_def offset_limits_def)
qed

lemma find_simplex_clip_to_limits:
  "find_simplex T (map (clip_to_limits T) ps) = find_simplex T ps"
  by (simp add: find_simplex_def center_states_def center_row_clip_to_limits comp_def)

lemma center_row_project: "center_row (T\<lparr>project := b\<rparr>) c = center_row T c"
  by (rule ext) (simp add: center_row_def offset_def offset_limits_def cong: if_cong)

lemma rectangle_of_centered_project:
  "rectangle_of_centered (T\<lparr>project := b\<rparr>) = rectangle_of_centered T"
  by (rule ext) (simp add: rectangle_of_centered_def unit_maxes_def)

lemma find_simplex_project:
  "find_simplex (T\<lparr>project := b\<rparr>) ps = find_simplex T ps"
  by (simp add: find_simplex_def center_states_def state_to_rectangle_def
      center_row_project rectangle_of_centered_project unit_maxes_def)

lemma get_weights_clip_to_limits:
  "project T \<Longrightarrow> get_weights T (map (clip_to_limits T) ps) = get_weights T ps"
  by (simp add: get_weights_def find_simplex_clip_to_limits clip_to_limits_idem comp_def)

text \<open>
  C9. With \<^verbatim>\<open>project=True\<close>, \<^verbatim>\<open>evaluate\<close> at a point gives what it gives at the point
  clamped into the limits, and the simplex that \<^verbatim>\<open>find_simplex\<close> selects is the same for
  the point and its clamped image, and does not depend on the \<^verbatim>\<open>project\<close> flag.
\<close>

theorem evaluate_project_clamped:
  assumes "project T"
  shows "evaluate T ps = evaluate T (map (clip_to_limits T) ps) \<and>
         find_simplex T ps = find_simplex T (map (clip_to_limits T) ps) \<and>
         find_simplex T ps = find_simplex (T\<lparr>project := False\<rparr>) ps"
  using assms
  by (simp add: evaluate_def get_weights_clip_to_limits find_simplex_clip_to_limits
      find_simplex_project)

lemmas eval_defs = evaluate_def get_weights_def find_simplex_def center_states_def center_row_def
  state_to_rectangle_def rectangle_of_centered_def floor_divide_def fmod_def eps_def
  simplices_def rectangle_corner_index_def rectangle_corner_index1_def py_get_def
  values_at_def dot_def vecmat_def clip_to_limits_def clip_def ravel_multi_index_def
  index_to_state_def index_to_state1_def unravel_index_def upt_rec_numeral Let_def

theorem evaluate_project_clamped_witness:
  "project (example_tri\<lparr>project := True\<rparr>) \<and>
   evaluate (example_tri\<lparr>project := True\<rparr>) [[2, 1 / 4]] =
     evaluate (example_tri\<lparr>project := True\<rparr>) [[1, 1 / 4]] \<and>
   evaluate (example_tri\<lparr>project := True\<rparr>) [[2, 1 / 4]] = Inr [3 / 2]"
proof -
  have p: "project (example_tri\<lparr>project := True\<rparr>)" by simp
  have c: "map (clip_to_limits (example_tri\<lparr>project := True\<rparr>)) [[2, 1 / 4]] = [[1, 1 / 4]]"
    by (simp add: clip_to_limits_def clip_def example_defs)
  have e: "evaluate (example_tri\<lparr>project := True\<rparr>) [[1, 1 / 4]] = Inr [3 / 2]"
    by (simp add: eval_defs example_defs grid_defs)
  show ?thesis
    using evaluate_project_clamped [OF p, of "[[2, 1 / 4]]"] p e unfolding c by simp
qed

subsection \<open>What the query path returns\<close>

lemma thn_Inr_iff: "thn r f = Inr y \<longleftrightarrow> (\<exists>x. r = Inr x \<and> f x = Inr y)"
  by (cases r) (auto simp: thn_def)

lemma mapM_length: "mapM f xs = Inr ys \<Longrightarrow> length ys = length xs"
  by (simp add: mapM_Inr_iff list_all2_lengthD)

lemma find_simplex_length:
  assumes "find_simplex T ps = Inr ids"
  shows "length ids = length ps"
proof -
  from assms obtain rs where
    r: "state_to_rectangle T (center_states T ps True) False = Inr rs"
    and i: "ids = map2 (\<lambda>s r. s + r * dl_nsimplex (triangulation T))
              (map (dl_find_simplex (triangulation T))
                 (map (\<lambda>p. map2 fmod p (unit_maxes T)) (center_states T ps True))) rs"
    unfolding find_simplex_def Let_def thn_Inr_iff by auto
  have "length rs = length ps"
    using r mapM_length[of "rectangle_of_centered T" "center_states T ps True" rs]
    by (simp add: state_to_rectangle_def center_states_def)
  then show ?thesis by (simp add: i center_states_def)
qed

lemma unravel_index_Inr:
  "unravel_index i dims = Inr m \<Longrightarrow> 0 \<le> i \<and> i < prod_list dims \<and> m = unravel_c i dims"
  by (auto simp: unravel_index_def split: if_splits)

lemma rectangle_corner_index1_range:
  "rectangle_corner_index1 g r = Inr c \<Longrightarrow> 0 \<le> r \<and> r < nrectangles g"
  by (auto simp: rectangle_corner_index1_def thn_Inr_iff nrectangles_def dest!: unravel_index_Inr)

lemma div_range_imp:
  assumes n: "0 < (n::int)" and r: "0 \<le> g div n" "g div n < R"
  shows "0 \<le> g" "g < n * R"
proof -
  have e: "n * (g div n) + g mod n = g" by simp
  have m: "0 \<le> g mod n" "g mod n < n" using n by simp_all
  have "0 \<le> n * (g div n)" using n r by simp
  then show "0 \<le> g" using e m by linarith
  have "g div n + 1 \<le> R" using r by simp
  then have "n * (g div n + 1) \<le> n * R" using n by (intro mult_left_mono) auto
  then have "n * (g div n) + n \<le> n * R" by (simp add: algebra_simps)
  then show "g < n * R" using e m by linarith
qed

lemma simplices_Inr_range:
  assumes ok: "Triangulation_ok T" and s: "simplices T ids = Inr S"
  shows "list_all (\<lambda>g. 0 \<le> g \<and> g < nsimplex T) ids"
proof -
  let ?n = "dl_nsimplex (triangulation T)"
  from s obtain cs where "rectangle_corner_index T (map (\<lambda>i. i div ?n) ids) = Inr cs"
    unfolding simplices_def Let_def thn_Inr_iff by blast
  then have a: "list_all2 (\<lambda>r c. rectangle_corner_index1 T r = Inr c) (map (\<lambda>i. i div ?n) ids) cs"
    by (simp add: rectangle_corner_index_def mapM_Inr_iff)
  show ?thesis
    unfolding list_all_iff
  proof
    fix g assume "g \<in> set ids"
    then obtain i where i: "i < length ids" "ids ! i = g" by (auto simp: in_set_conv_nth)
    have "rectangle_corner_index1 T (map (\<lambda>i. i div ?n) ids ! i) = Inr (cs ! i)"
      using list_all2_nthD[OF a, of i] i(1) by simp
    then have "rectangle_corner_index1 T (g div ?n) = Inr (cs ! i)" using i by simp
    then have r: "0 \<le> g div ?n" "g div ?n < nrectangles T"
      using rectangle_corner_index1_range by blast+
    show "0 \<le> g \<and> g < nsimplex T"
      using div_range_imp[OF ok_nsimplex_pos[OF ok] r] by (simp add: nsimplex_def)
  qed
qed

lemma simplices_eq_vertices:
  assumes "Triangulation_ok T" "list_all (\<lambda>g. 0 \<le> g \<and> g < nsimplex T) ids"
  shows "simplices T ids = Inr (map (simplex_vertices T) ids)"
  using simplices_eq(2)[OF assms] by (simp add: simplex_vertices_def[abs_def])

lemma simplex_vertices_props:
  assumes ok: "Triangulation_ok T" and g: "0 \<le> g" "g < nsimplex T"
  shows "length (simplex_vertices T g) = ndim T + 1"
    and "\<And>k. k < ndim T + 1 \<Longrightarrow>
           0 \<le> simplex_vertices T g ! k \<and> simplex_vertices T g ! k < nindex T"
    and "\<And>k. k < ndim T + 1 \<Longrightarrow>
           vertex_state T (simplex_vertices T g ! k) =
             map2 (+) (vertex_state T (unit_simplices T ! nat (g mod dl_nsimplex (triangulation T)) ! k))
               (map2 (-) (lattice_state T (cell_index T (g div dl_nsimplex (triangulation T))))
                  (offset T))"
proof -
  let ?n = "dl_nsimplex (triangulation T)"
  let ?u = "unit_simplices T ! nat (g mod ?n)"
  note S = simplex_id_split[OF ok g]
  note G = ok_grid[OF ok]
  note U = ok_unit_simplex[OF ok S(5)]
  show "length (simplex_vertices T g) = ndim T + 1"
    using U(1) by (simp add: simplex_vertices_def)
  fix k assume k: "k < ndim T + 1"
  then have kk: "k < length ?u" using U(1) by simp
  then have c: "is_corner T (?u ! k)" using U(2) by simp
  have e: "simplex_vertices T g ! k = ?u ! k + corner_of T (g div ?n)"
    using kk by (simp add: simplex_vertices_def)
  note C = corner_shift[OF G S(1,2) c]
  show "0 \<le> simplex_vertices T g ! k \<and> simplex_vertices T g ! k < nindex T"
    using C(3,4) by (simp add: e)
  have l1: "length (unravel_c (?u ! k) (vertex_dims T)) = length (limits T)"
    using G by (simp add: grid_ok_def)
  have l2: "length (cell_index T (g div ?n)) = length (limits T)"
    using G by (simp add: grid_ok_def cell_index_def)
  show "vertex_state T (simplex_vertices T g ! k) =
             map2 (+) (vertex_state T (?u ! k))
               (map2 (-) (lattice_state T (cell_index T (g div ?n))) (offset T))"
    by (simp add: vertex_state_def e C(5) lattice_state_add[OF G l1 l2])
qed

lemma index_to_state1_vertex:
  "0 \<le> v \<Longrightarrow> v < nindex g \<Longrightarrow> index_to_state1 g v = Inr (vertex_state g v)"
  by (simp add: index_to_state1_eq vertex_state_def)

lemma ok_hyperplanes_len:
  "Triangulation_ok T \<Longrightarrow> length (hyperplanes T) = length (unit_simplices T)"
  by (auto simp: Triangulation_ok_def dest: list_all2_lengthD)

lemma hyperplanes_lookup:
  assumes ok: "Triangulation_ok T" and ids: "list_all (\<lambda>g. 0 \<le> g \<and> g < nsimplex T) ids"
  shows "mapM (py_get (hyperplanes T)) (map (\<lambda>i. i mod dl_nsimplex (triangulation T)) ids)
         = Inr (map (\<lambda>g. hyperplanes T ! nat (g mod dl_nsimplex (triangulation T))) ids)"
proof -
  let ?n = "dl_nsimplex (triangulation T)"
  have "mapM (py_get (hyperplanes T)) (map (\<lambda>i. i mod ?n) ids)
        = Inr (map (\<lambda>i. hyperplanes T ! nat i) (map (\<lambda>i. i mod ?n) ids))"
  proof (rule mapM_Inr_map)
    fix x assume "x \<in> set (map (\<lambda>i. i mod ?n) ids)"
    then obtain g where "g \<in> set ids" "x = g mod ?n" by auto
    then show "py_get (hyperplanes T) x = Inr (hyperplanes T ! nat x)"
      using simplex_id_split(3,4)[OF ok, of g] ids ok_hyperplanes_len[OF ok]
      by (intro py_get_nth) (auto simp: list_all_iff)
  qed
  then show ?thesis by (simp add: comp_def)
qed



lemma get_weights_gradient_eq:
  assumes ok: "Triangulation_ok T" and f: "find_simplex T ps = Inr ids"
    and ids: "list_all (\<lambda>g. 0 \<le> g \<and> g < nsimplex T) ids"
  shows "get_weights_gradient T ps = Inr (map (gradient_rows T) ids, map (simplex_vertices T) ids)"
  unfolding get_weights_gradient_def f thn_Inr Let_def simplices_eq_vertices[OF ok ids]
    hyperplanes_lookup[OF ok ids]
  by (simp add: gradient_rows_def comp_def)

lemma get_weights_gradient_Inr:
  assumes ok: "Triangulation_ok T" and gw: "get_weights_gradient T ps = Inr (W, S)"
  shows "\<exists>ids. find_simplex T ps = Inr ids \<and> length ids = length ps \<and>
           list_all (\<lambda>g. 0 \<le> g \<and> g < nsimplex T) ids \<and>
           W = map (gradient_rows T) ids \<and> S = map (simplex_vertices T) ids"
proof -
  from gw obtain ids S' where f: "find_simplex T ps = Inr ids" and s: "simplices T ids = Inr S'"
    by (auto simp: get_weights_gradient_def Let_def thn_Inr_iff)
  have r: "list_all (\<lambda>g. 0 \<le> g \<and> g < nsimplex T) ids"
    by (rule simplices_Inr_range[OF ok s])
  from get_weights_gradient_eq[OF ok f r] gw
  have "W = map (gradient_rows T) ids" "S = map (simplex_vertices T) ids" by simp_all
  with find_simplex_length[OF f] f r show ?thesis by blast
qed

subsection \<open>Queries that cannot fail\<close>

lemma mapM_map: "mapM f (map h xs) = mapM (\<lambda>x. f (h x)) xs"
  by (induction xs) (auto split: sum.splits)

lemma eps_pos: "0 < eps"
  by (simp add: eps_def)

lemma center_row_props:
  assumes ok: "grid_ok g" and mg: "margin_ok g" and lp: "length p = ndim g"
  shows "length (center_row g True p) = ndim g"
    and "\<And>k. k < ndim g \<Longrightarrow> 0 \<le> center_row g True p ! k \<and>
           center_row g True p ! k < of_int (num_points g ! k) * unit_maxes g ! k"
proof -
  show "length (center_row g True p) = ndim g"
    using lp by (simp add: center_row_def ndim_def offset_limits_def)
  fix k assume k: "k < ndim g"
  then have kl: "k < length (limits g)" by (simp add: ndim_def)
  note G = grid_ok_nth[OF ok kl]
  obtain lo hi where lh: "limits g ! k = (lo, hi)" by (cases "limits g ! k")
  have m: "2 * eps \<le> hi - lo"
    using mg kl lh by (auto simp: margin_ok_def list_all_length split: prod.splits)
  have c: "center_row g True p ! k = clip (p ! k - lo) (0 + 2 * eps) (hi - lo - 2 * eps)"
    using kl lp lh by (simp add: center_row_def ndim_def offset_limits_def offset_def)
  have nu: "of_int (num_points g ! k) * unit_maxes g ! k = hi - lo"
    using G lh by simp
  show "0 \<le> center_row g True p ! k \<and>
           center_row g True p ! k < of_int (num_points g ! k) * unit_maxes g ! k"
    unfolding c nu using m eps_pos by (auto simp: clip_def min_def max_def)
qed

lemma floor_divide_range:
  assumes u: "0 < u" and c: "0 \<le> c" "c < of_int N * u"
  shows "0 \<le> floor_divide c u" "floor_divide c u < N"
    "0 \<le> fmod c u" "fmod c u < u"
proof -
  have q: "0 \<le> c / u" "c / u < of_int N"
    using u c by (simp_all add: divide_less_eq)
  show "0 \<le> floor_divide c u" using q by (simp add: floor_divide_def)
  show "floor_divide c u < N" using q by (simp add: floor_divide_def floor_less_iff)
  have f: "of_int \<lfloor>c / u\<rfloor> \<le> c / u" "c / u < of_int \<lfloor>c / u\<rfloor> + 1" by linarith+
  have "of_int \<lfloor>c / u\<rfloor> * u \<le> (c / u) * u"
    using f(1) u by (intro mult_right_mono) auto
  then have "of_int \<lfloor>c / u\<rfloor> * u \<le> c" using u by simp
  then show "0 \<le> fmod c u" by (simp add: fmod_def)
  have "(c / u) * u < (of_int \<lfloor>c / u\<rfloor> + 1) * u"
    using f(2) u by (intro mult_strict_right_mono) auto
  then have "c < (of_int \<lfloor>c / u\<rfloor> + 1) * u" using u by simp
  then show "fmod c u < u" by (simp add: fmod_def algebra_simps)
qed

lemma rectangle_of_centered_clipped:
  assumes ok: "grid_ok g" and mg: "margin_ok g" and lp: "length p = ndim g"
  shows "\<exists>r. rectangle_of_centered g (center_row g True p) = Inr r \<and> 0 \<le> r \<and> r < nrectangles g"
    and "in_unit_cell g (map2 fmod (center_row g True p) (unit_maxes g))"
proof -
  let ?c = "center_row g True p"
  let ?m = "map2 floor_divide ?c (unit_maxes g)"
  note C = center_row_props[OF ok mg lp]
  have ln: "length (num_points g) = ndim g" "length (unit_maxes g) = ndim g"
    using ok by (simp_all add: grid_ok_def ndim_def)
  have per: "\<And>k. k < ndim g \<Longrightarrow>
       0 \<le> floor_divide (?c ! k) (unit_maxes g ! k) \<and>
       floor_divide (?c ! k) (unit_maxes g ! k) < num_points g ! k \<and>
       0 \<le> fmod (?c ! k) (unit_maxes g ! k) \<and> fmod (?c ! k) (unit_maxes g ! k) < unit_maxes g ! k"
  proof -
    fix k assume k: "k < ndim g"
    then have kl: "k < length (limits g)" by (simp add: ndim_def)
    have u: "0 < unit_maxes g ! k" using grid_ok_nth(4)[OF ok kl] .
    from floor_divide_range[OF u] C(2)[OF k]
    show "0 \<le> floor_divide (?c ! k) (unit_maxes g ! k) \<and>
       floor_divide (?c ! k) (unit_maxes g ! k) < num_points g ! k \<and>
       0 \<le> fmod (?c ! k) (unit_maxes g ! k) \<and> fmod (?c ! k) (unit_maxes g ! k) < unit_maxes g ! k"
      by blast
  qed
  have rng: "list_all2 (\<lambda>k d. 0 \<le> k \<and> k < d) ?m (num_points g)"
  proof (rule list_all2_all_nthI)
    show "length ?m = length (num_points g)" using C(1) ln by simp
  next
    fix k assume "k < length ?m"
    then have k: "k < ndim g" using C(1) ln by simp
    then show "0 \<le> ?m ! k \<and> ?m ! k < num_points g ! k"
      using per[OF k] C(1) ln by simp
  qed
  have ne: "num_points g \<noteq> []" using ok by (auto simp: grid_ok_def)
  have "rectangle_of_centered g ?c = Inr (ravel_c ?m (num_points g))"
    unfolding rectangle_of_centered_def by (rule ravel_multi_index_in_range[OF rng])
  moreover have "0 \<le> ravel_c ?m (num_points g) \<and> ravel_c ?m (num_points g) < nrectangles g"
    using ravel_c_bounds[OF rng] ne by (simp add: nrectangles_def)
  ultimately show "\<exists>r. rectangle_of_centered g ?c = Inr r \<and> 0 \<le> r \<and> r < nrectangles g"
    by blast
  show "in_unit_cell g (map2 fmod ?c (unit_maxes g))"
    unfolding in_unit_cell_def
  proof
    show "length (map2 fmod ?c (unit_maxes g)) = ndim g" using C(1) ln by simp
    show "list_all2 (\<lambda>c u. 0 \<le> c \<and> c < u) (map2 fmod ?c (unit_maxes g)) (unit_maxes g)"
    proof (rule list_all2_all_nthI)
      show "length (map2 fmod ?c (unit_maxes g)) = length (unit_maxes g)" using C(1) ln by simp
    next
      fix k assume "k < length (map2 fmod ?c (unit_maxes g))"
      then have k: "k < ndim g" using C(1) ln by simp
      then show "0 \<le> map2 fmod ?c (unit_maxes g) ! k \<and>
                 map2 fmod ?c (unit_maxes g) ! k < unit_maxes g ! k"
        using per[OF k] C(1) ln by simp
    qed
  qed
qed

lemma state_to_rectangle_in_range:
  assumes ok: "grid_ok g" and mg: "margin_ok g" and ps: "points_ok g ps"
  shows "\<exists>rs. state_to_rectangle g ps True = Inr rs \<and> length rs = length ps \<and>
           list_all (\<lambda>r. 0 \<le> r \<and> r < nrectangles g) rs"
proof -
  let ?f = "\<lambda>p. SOME r. rectangle_of_centered g (center_row g True p) = Inr r"
  have a: "\<And>p. p \<in> set ps \<Longrightarrow>
     rectangle_of_centered g (center_row g True p) = Inr (?f p) \<and> 0 \<le> ?f p \<and> ?f p < nrectangles g"
  proof -
    fix p assume "p \<in> set ps"
    then have "length p = ndim g" using ps by (simp add: points_ok_def list_all_iff)
    from rectangle_of_centered_clipped(1)[OF ok mg this]
    obtain r where r: "rectangle_of_centered g (center_row g True p) = Inr r"
      "0 \<le> r" "r < nrectangles g" by blast
    then have "?f p = r" by simp
    with r show "rectangle_of_centered g (center_row g True p) = Inr (?f p) \<and>
        0 \<le> ?f p \<and> ?f p < nrectangles g" by simp
  qed
  have "mapM (\<lambda>p. rectangle_of_centered g (center_row g True p)) ps = Inr (map ?f ps)"
    by (rule mapM_Inr_map) (use a in blast)
  moreover have "mapM (rectangle_of_centered g) (map (center_row g True) ps)
        = mapM (\<lambda>p. rectangle_of_centered g (center_row g True p)) ps"
    by (rule mapM_map)
  ultimately have "state_to_rectangle g ps True = Inr (map ?f ps)"
    by (simp add: state_to_rectangle_def center_states_def)
  moreover have "list_all (\<lambda>r. 0 \<le> r \<and> r < nrectangles g) (map ?f ps)"
    using a by (simp add: list_all_iff)
  ultimately show ?thesis by auto
qed


subsection \<open>Gradient weights\<close>

lemma ok_hyperplane:
  assumes ok: "Triangulation_ok T" and u: "u < length (unit_simplices T)"
  shows "length (hyperplanes T ! u) = ndim T"
    and "\<And>j. j < ndim T \<Longrightarrow> length (hyperplanes T ! u ! j) = ndim T"
    and "matmul (ndim T) (hyperplanes T ! u) (unit_edges T (unit_simplices T ! u)) = identity (ndim T)"
    and "matmul (ndim T) (unit_edges T (unit_simplices T ! u)) (hyperplanes T ! u) = identity (ndim T)"
proof -
  have a: "list_all2 (\<lambda>s H. length H = ndim T \<and> list_all (\<lambda>r. length r = ndim T) H \<and>
                  matmul (ndim T) H (unit_edges T s) = identity (ndim T) \<and>
                  matmul (ndim T) (unit_edges T s) H = identity (ndim T))
       (unit_simplices T) (hyperplanes T)"
    using ok unfolding Triangulation_ok_def by blast
  note b = list_all2_nthD[OF a u]
  show l: "length (hyperplanes T ! u) = ndim T" using b by blast
  show "\<And>j. j < ndim T \<Longrightarrow> length (hyperplanes T ! u ! j) = ndim T"
    using b l by (simp add: list_all_length)
  show "matmul (ndim T) (hyperplanes T ! u) (unit_edges T (unit_simplices T ! u)) = identity (ndim T)"
    using b by blast
  show "matmul (ndim T) (unit_edges T (unit_simplices T ! u)) (hyperplanes T ! u) = identity (ndim T)"
    using b by blast
qed

lemma gradient_rows_props:
  assumes ok: "Triangulation_ok T" and g: "0 \<le> g" "g < nsimplex T"
  shows "py_get (hyperplanes T) (g mod dl_nsimplex (triangulation T))
           = Inr (hyperplanes T ! nat (g mod dl_nsimplex (triangulation T)))"
    and "length (gradient_rows T g) = ndim T"
    and "map tl (gradient_rows T g) = hyperplanes T ! nat (g mod dl_nsimplex (triangulation T))"
    and "map hd (gradient_rows T g) =
           map (\<lambda>row. - sum_list row) (hyperplanes T ! nat (g mod dl_nsimplex (triangulation T)))"
    and "list_all (\<lambda>r. length r = ndim T + 1 \<and> sum_list r = 0) (gradient_rows T g)"
proof -
  let ?n = "dl_nsimplex (triangulation T)"
  note S = simplex_id_split[OF ok g]
  note H = ok_hyperplane[OF ok S(5)]
  show "py_get (hyperplanes T) (g mod ?n) = Inr (hyperplanes T ! nat (g mod ?n))"
    using S(3,4) ok_hyperplanes_len[OF ok] by (intro py_get_nth) auto
  show "length (gradient_rows T g) = ndim T" using H(1) by (simp add: gradient_rows_def)
  show "map tl (gradient_rows T g) = hyperplanes T ! nat (g mod ?n)"
    by (simp add: gradient_rows_def comp_def)
  show "map hd (gradient_rows T g) = map (\<lambda>row. - sum_list row) (hyperplanes T ! nat (g mod ?n))"
    by (simp add: gradient_rows_def comp_def)
  show "list_all (\<lambda>r. length r = ndim T + 1 \<and> sum_list r = 0) (gradient_rows T g)"
    using H(1,2) by (auto simp: gradient_rows_def list_all_length)
qed





subsection \<open>Sparse operators\<close>

lemma block_sum_one:
  "length w = length s \<Longrightarrow>
   sum_list (map (coo_term v i) (zip w (zip (replicate (length w) (int a)) s)))
     = (if a = i then dot w (map (\<lambda>c. v ! nat c) s) else 0)"
  by (induction w s rule: list_induct2) (auto simp: dot_def coo_term_def)

lemma block_sums:
  assumes "list_all2 (\<lambda>w s. length w = m \<and> length s = m) W S"
  shows "sum_list (map (coo_term v i)
           (zip (concat W)
              (zip (concat (map (\<lambda>j. replicate m (int j)) [a..<a + length W])) (concat S))))
         = (if a \<le> i \<and> i < a + length W
            then dot (W ! (i - a)) (map (\<lambda>c. v ! nat c) (S ! (i - a))) else 0)"
  using assms
proof (induction W S arbitrary: a rule: list_all2_induct)
  case Nil
  then show ?case by simp
next
  case (Cons w W s S)
  let ?R = "concat (map (\<lambda>j. replicate m (int j)) [Suc a..<Suc a + length W])"
  have lw: "length w = m" "length s = m" using Cons.hyps(1) by auto
  have up: "[a..<a + length (w # W)] = a # [Suc a..<Suc a + length W]"
    using upt_conv_Cons[of a "a + length (w # W)"] by simp
  have z: "zip (concat (w # W))
              (zip (concat (map (\<lambda>j. replicate m (int j)) [a..<a + length (w # W)]))
                 (concat (s # S)))
           = zip w (zip (replicate (length w) (int a)) s) @ zip (concat W) (zip ?R (concat S))"
    unfolding up using lw by simp
  have ih: "sum_list (map (coo_term v i) (zip (concat W) (zip ?R (concat S))))
         = (if Suc a \<le> i \<and> i < Suc a + length W
            then dot (W ! (i - Suc a)) (map (\<lambda>c. v ! nat c) (S ! (i - Suc a))) else 0)"
    by (rule Cons.IH)
  have one: "sum_list (map (coo_term v i) (zip w (zip (replicate (length w) (int a)) s)))
     = (if a = i then dot w (map (\<lambda>c. v ! nat c) s) else 0)"
    using lw by (intro block_sum_one) simp
  have split: "sum_list (map (coo_term v i)
           (zip (concat (w # W))
              (zip (concat (map (\<lambda>j. replicate m (int j)) [a..<a + length (w # W)]))
                 (concat (s # S)))))
        = (if a = i then dot w (map (\<lambda>c. v ! nat c) s) else 0) +
          (if Suc a \<le> i \<and> i < Suc a + length W
            then dot (W ! (i - Suc a)) (map (\<lambda>c. v ! nat c) (S ! (i - Suc a))) else 0)"
    unfolding z map_append sum_list_append one ih ..
  have fin: "(if a = i then dot w (map (\<lambda>c. v ! nat c) s) else 0) +
          (if Suc a \<le> i \<and> i < Suc a + length W
            then dot (W ! (i - Suc a)) (map (\<lambda>c. v ! nat c) (S ! (i - Suc a))) else 0)
        = (if a \<le> i \<and> i < a + length (w # W)
            then dot ((w # W) ! (i - a)) (map (\<lambda>c. v ! nat c) ((s # S) ! (i - a))) else 0)"
  proof (cases "a = i")
    case True
    then show ?thesis by simp
  next
    case False
    show ?thesis
    proof (cases "a < i")
      case True
      then obtain d where d: "i - a = Suc d" "i - Suc a = d"
        by (cases "i - a") auto
      have "Suc a \<le> i" using True by simp
      moreover have "i < Suc a + length W \<longleftrightarrow> i < a + length (w # W)" by simp
      ultimately show ?thesis using True False by (simp add: d)
    next
      case f: False
      then show ?thesis using False by simp
    qed
  qed
  show ?case unfolding split fin ..
qed

lemma length_concat_blocks:
  "list_all (\<lambda>w. length w = m) W \<Longrightarrow> length (concat W) = length W * m"
  by (induction W) auto

lemma length_rows: "length (concat (map (\<lambda>j. replicate m (int j)) [a..<a + k])) = k * m"
proof -
  have "list_all (\<lambda>w. length w = m) (map (\<lambda>j. replicate m (int j)) [a..<a + k])"
    by (simp add: list_all_iff)
  from length_concat_blocks[OF this] show ?thesis by simp
qed

lemma rows_in_range:
  "\<not> list_ex (\<lambda>r. r < 0 \<or> int k \<le> r) (concat (map (\<lambda>j. replicate m (int j)) [0..<k]))"
  by (auto simp: list_ex_iff)

lemma coo_of_blocks:
  assumes bl: "list_all2 (\<lambda>w s. length w = m \<and> length s = m) W S"
    and cols: "list_all (list_all (\<lambda>c. 0 \<le> c \<and> c < int N)) S"
    and lv: "length v = N"
  shows "\<exists>B. coo_matrix_init (concat W)
                (concat (map (\<lambda>j. replicate m (int j)) [0..<length W])) (concat S) (length W, N)
              = Inr B \<and> coo_shape B = (length W, N) \<and>
              coo_dot B v = Inr (map2 dot W (map (map (\<lambda>c. v ! nat c)) S))"
proof -
  let ?rows = "concat (map (\<lambda>j. replicate m (int j)) [0..<length W])"
  let ?B = "\<lparr>coo_data = concat W, coo_row = ?rows, coo_col = concat S,
             coo_shape = (length W, N)\<rparr>"
  have lWS: "length W = length S" using bl by (rule list_all2_lengthD)
  have aw: "list_all (\<lambda>w. length w = m) W" and as: "list_all (\<lambda>s. length s = m) S"
    using bl by (auto simp: list_all_length list_all2_conv_all_nth)
  have l1: "length (concat W) = length W * m" by (rule length_concat_blocks[OF aw])
  have l2: "length (concat S) = length W * m" using length_concat_blocks[OF as] lWS by simp
  have l3: "length ?rows = length W * m" using length_rows[of m 0 "length W"] by simp
  have c: "\<not> list_ex (\<lambda>c. c < 0 \<or> int N \<le> c) (concat S)"
  proof
    assume "list_ex (\<lambda>c. c < 0 \<or> int N \<le> c) (concat S)"
    then obtain s c where sc: "s \<in> set S" "c \<in> set s" "c < 0 \<or> int N \<le> c"
      by (auto simp: list_ex_iff)
    from cols sc(1,2) have "0 \<le> c \<and> c < int N" unfolding list_all_iff by blast
    with sc(3) show False by linarith
  qed
  have init: "coo_matrix_init (concat W) ?rows (concat S) (length W, N) = Inr ?B"
    using l1 l2 l3 c rows_in_range[of "length W" m] by (simp add: coo_matrix_init_def)
  have "map (\<lambda>i. sum_list (map (coo_term v i) (zip (concat W) (zip ?rows (concat S)))))
          [0..<length W]
        = map2 dot W (map (map (\<lambda>c. v ! nat c)) S)"
  proof (rule nth_equalityI)
    show "length (map (\<lambda>i. sum_list (map (coo_term v i) (zip (concat W) (zip ?rows (concat S)))))
          [0..<length W]) = length (map2 dot W (map (map (\<lambda>c. v ! nat c)) S))"
      using lWS by simp
  next
    fix i assume "i < length (map (\<lambda>i. sum_list (map (coo_term v i)
                     (zip (concat W) (zip ?rows (concat S))))) [0..<length W])"
    then have i: "i < length W" by simp
    show "map (\<lambda>i. sum_list (map (coo_term v i) (zip (concat W) (zip ?rows (concat S)))))
            [0..<length W] ! i = map2 dot W (map (map (\<lambda>c. v ! nat c)) S) ! i"
      using block_sums[OF bl, of v i 0] i lWS by simp
  qed
  then have "coo_dot ?B v = Inr (map2 dot W (map (map (\<lambda>c. v ! nat c)) S))"
    using lv by (simp add: coo_dot_def coo_term_def[abs_def])
  with init show ?thesis by simp
qed

lemma values_at_eq:
  assumes "vertex_values g = Some v"
    and "list_all (list_all (\<lambda>c. 0 \<le> c \<and> c < int (length v))) S"
  shows "values_at g S = Inr (map (map (\<lambda>c. v ! nat c)) S)"
proof -
  have "mapM (mapM (py_get v)) S = Inr (map (map (\<lambda>c. v ! nat c)) S)"
  proof (rule mapM_Inr_map)
    fix s assume s: "s \<in> set S"
    show "mapM (py_get v) s = Inr (map (\<lambda>c. v ! nat c) s)"
    proof (rule mapM_Inr_map)
      fix c assume "c \<in> set s"
      then have "0 \<le> c \<and> c < int (length v)" using assms(2) s by (auto simp: list_all_iff)
      then show "py_get v c = Inr (v ! nat c)" by (simp add: py_get_nth)
    qed
  qed
  then show ?thesis by (simp add: values_at_def assms(1))
qed


lemma simplex_rows_in_range:
  assumes ok: "Triangulation_ok T" and ids: "list_all (\<lambda>g. 0 \<le> g \<and> g < nsimplex T) ids"
  shows "list_all (list_all (\<lambda>c. 0 \<le> c \<and> c < nindex T)) (map (simplex_vertices T) ids)"
  unfolding list_all_iff
proof (intro ballI)
  fix s c assume "s \<in> set (map (simplex_vertices T) ids)" "c \<in> set s"
  then obtain g where g: "g \<in> set ids" "c \<in> set (simplex_vertices T g)" by auto
  then have gr: "0 \<le> g" "g < nsimplex T" using ids by (auto simp: list_all_iff)
  note P = simplex_vertices_props[OF ok gr]
  from g(2) obtain k where "k < length (simplex_vertices T g)" "simplex_vertices T g ! k = c"
    by (auto simp: in_set_conv_nth)
  then show "0 \<le> c \<and> c < nindex T" using P(1) P(2)[of k] by auto
qed






subsection \<open>The gradient operator\<close>

lemma concat_map_concat: "concat (map concat xss) = concat (concat xss)"
  by (induction xss) auto

lemma thn_assoc: "thn (thn r f) h = thn r (\<lambda>x. thn (f x) h)"
  by (cases r) simp_all

lemma map2_dot_replicate:
  "map2 dot rows (replicate (length rows) vs) = map (\<lambda>row. dot row vs) rows"
  by (induction rows) auto

lemma gradient_blocks:
  assumes ok: "Triangulation_ok T" and ids: "list_all (\<lambda>g. 0 \<le> g \<and> g < nsimplex T) ids"
  shows "list_all2 (\<lambda>w s. length w = ndim T + 1 \<and> length s = ndim T + 1)
           (concat (map (gradient_rows T) ids))
           (concat (map (replicate (ndim T)) (map (simplex_vertices T) ids)))"
    and "length (concat (map (gradient_rows T) ids)) = length ids * ndim T"
    and "map2 dot (concat (map (gradient_rows T) ids))
           (map (map f) (concat (map (replicate (ndim T)) (map (simplex_vertices T) ids))))
         = concat (map2 (\<lambda>w vs. map (\<lambda>row. dot row vs) w) (map (gradient_rows T) ids)
             (map (map f) (map (simplex_vertices T) ids)))"
  using ids
proof (induction ids)
  case Nil
  {
    case 1 show ?case by simp
  next
    case 2 show ?case by simp
  next
    case 3 show ?case by simp
  }
next
  case (Cons g ids)
  {
    case 1
    then have g: "0 \<le> g" "g < nsimplex T" and r: "list_all (\<lambda>g. 0 \<le> g \<and> g < nsimplex T) ids"
      by simp_all
    note P = gradient_rows_props[OF ok g]
    note V = simplex_vertices_props(1)[OF ok g]
    have h: "list_all2 (\<lambda>w s. length w = ndim T + 1 \<and> length s = ndim T + 1)
               (gradient_rows T g) (replicate (ndim T) (simplex_vertices T g))"
      using P(2,5) V by (simp add: list_all2_conv_all_nth list_all_length)
    show ?case using h Cons.IH(1)[OF r] by (simp add: list_all2_appendI)
  next
    case 2
    then have g: "0 \<le> g" "g < nsimplex T" and r: "list_all (\<lambda>g. 0 \<le> g \<and> g < nsimplex T) ids"
      by simp_all
    show ?case using gradient_rows_props(2)[OF ok g] Cons.IH(2)[OF r] by simp
  next
    case 3
    then have g: "0 \<le> g" "g < nsimplex T" and r: "list_all (\<lambda>g. 0 \<le> g \<and> g < nsimplex T) ids"
      by simp_all
    have l: "length (gradient_rows T g) = ndim T" by (rule gradient_rows_props(2)[OF ok g])
    have "map2 dot (gradient_rows T g) (replicate (ndim T) (map f (simplex_vertices T g)))
          = map (\<lambda>row. dot row (map f (simplex_vertices T g))) (gradient_rows T g)"
      using map2_dot_replicate[of "gradient_rows T g" "map f (simplex_vertices T g)"] l by simp
    then show ?case using Cons.IH(3)[OF r] l by simp
  }
qed

text \<open>
  The product of the \<^verbatim>\<open>gradient_constraint\<close> matrix with the vertex values is the
  gradient array flattened point by point: entry \<open>i * ndim + d\<close> is the derivative of
  point \<open>i\<close> along dimension \<open>d\<close>.
\<close>

lemma gradient_constraint_dot:
  assumes ok: "Triangulation_ok T" and vv: "vertex_values T = Some v"
    and lv: "int (length v) = nindex T"
  shows "thn (gradient_constraint T ps) (\<lambda>B. coo_dot B v)
           = thn (gradient T ps) (\<lambda>G. Inr (concat G))"
    and "\<And>B. gradient_constraint T ps = Inr B \<Longrightarrow> coo_shape B = (ndim T * length ps, length v)"
proof -
  have "thn (gradient_constraint T ps) (\<lambda>B. coo_dot B v)
           = thn (gradient T ps) (\<lambda>G. Inr (concat G)) \<and>
        (\<forall>B. gradient_constraint T ps = Inr B \<longrightarrow> coo_shape B = (ndim T * length ps, length v))"
  proof (cases "get_weights_gradient T ps")
    case (Inl e)
    then show ?thesis by (simp add: gradient_constraint_def gradient_def)
  next
    case (Inr ws)
    obtain W S where ws: "ws = (W, S)" by (cases ws)
    note gw = Inr[unfolded ws]
    from get_weights_gradient_Inr[OF ok gw] obtain ids where
      len: "length ids = length ps" and r: "list_all (\<lambda>g. 0 \<le> g \<and> g < nsimplex T) ids"
      and W: "W = map (gradient_rows T) ids" and S: "S = map (simplex_vertices T) ids" by blast
    let ?W' = "concat W" and ?S' = "concat (map (replicate (ndim T)) S)"
    note GB = gradient_blocks[OF ok r, folded W S]
    have cols0: "list_all (list_all (\<lambda>c. 0 \<le> c \<and> c < int (length v))) S"
      unfolding S lv by (rule simplex_rows_in_range[OF ok r])
    have cols: "list_all (list_all (\<lambda>c. 0 \<le> c \<and> c < int (length v))) ?S'"
      using cols0 by (auto simp: list_all_iff)
    have lS: "length S = length ps" using len by (simp add: S)
    have lW': "length ?W' = length S * ndim T" using GB(2) by (simp add: S)
    have nn: "nat (nindex T) = length v" using lv by simp
    from coo_of_blocks[OF GB(1) cols refl] obtain B where
      B: "coo_matrix_init (concat ?W')
            (concat (map (\<lambda>j. replicate (ndim T + 1) (int j)) [0..<length ?W'])) (concat ?S')
            (length ?W', length v) = Inr B"
        "coo_shape B = (length ?W', length v)"
        "coo_dot B v = Inr (map2 dot ?W' (map (map (\<lambda>c. v ! nat c)) ?S'))" by blast
    have c1: "concat (map concat W) = concat ?W'" by (rule concat_map_concat)
    have c2: "concat (map (\<lambda>s. concat (replicate (ndim T) s)) S) = concat ?S'"
      using concat_map_concat[of "map (replicate (ndim T)) S"] by (simp add: comp_def)
    have gc: "gradient_constraint T ps = Inr B"
      using B(1) unfolding lW'
      by (simp add: gradient_constraint_def gw Let_def c1 c2 nn mult.commute)
    have gr: "gradient T ps = Inr (map2 (\<lambda>w vs. map (\<lambda>row. dot row vs) w) W
                                     (map (map (\<lambda>c. v ! nat c)) S))"
      by (simp add: gradient_def gw values_at_eq[OF vv cols0])
    have "coo_dot B v = Inr (concat (map2 (\<lambda>w vs. map (\<lambda>row. dot row vs) w) W
                                     (map (map (\<lambda>c. v ! nat c)) S)))"
      using B(3) GB(3)[of "\<lambda>c. v ! nat c"] by simp
    then show ?thesis using gc gr B(2) lW' lS by (simp add: mult.commute)
  qed
  then show "thn (gradient_constraint T ps) (\<lambda>B. coo_dot B v)
           = thn (gradient T ps) (\<lambda>G. Inr (concat G))"
    and "\<And>B. gradient_constraint T ps = Inr B \<Longrightarrow> coo_shape B = (ndim T * length ps, length v)"
    by blast+
qed

lemmas grad_defs = gradient_def gradient_constraint_def get_weights_gradient_def
  coo_matrix_init_def coo_dot_def np_reshape_def

text \<open>
  C3. The product of the \<^verbatim>\<open>gradient_constraint\<close> matrix with the vertex values,
  reshaped to \<open>(ndim, k)\<close>, should hold at \<open>(d, i)\<close> the derivative of point \<open>i\<close> along
  \<open>d\<close>, which is the transpose of \<^verbatim>\<open>gradient(points)\<close>. On the concrete grid with the
  two points \<open>(1/4, 1/4)\<close> and \<open>(3/4, 3/4)\<close> both gradients are \<open>(1, 2)\<close>: the reshaped
  product is \<open>[[1, 2], [1, 2]]\<close>, the transposed gradient is \<open>[[1, 1], [2, 2]]\<close>.
\<close>

theorem gradient_constraint_reshape:
  "thn (gradient_constraint example_tri [[1 / 4, 1 / 4], [3 / 4, 3 / 4]])
     (\<lambda>B. thn (coo_dot B example_values) (\<lambda>x. np_reshape x (ndim example_tri)))
     = Inr [[1, 2], [1, 2]] \<and>
   thn (gradient example_tri [[1 / 4, 1 / 4], [3 / 4, 3 / 4]]) (\<lambda>G. Inr (transpose G))
     = Inr [[1, 1], [2, 2]]"
proof -
  have p: "thn (gradient_constraint example_tri [[1 / 4, 1 / 4], [3 / 4, 3 / 4]])
             (\<lambda>B. coo_dot B example_values) = Inr [1, 2, 1, 2]"
    by (simp add: grad_defs eval_defs example_defs grid_defs)
  have n: "ndim example_tri = 2" by (simp add: example_defs grid_defs)
  have len: "length [1, 2, 1, 2 :: real] = 4" by simp
  have u: "[0..<2] = [0, Suc 0]" by (simp add: numeral_2_eq_2)
  have r: "np_reshape [1, 2, 1, 2] (ndim example_tri) = Inr [[1, 2], [1, 2]]"
    unfolding np_reshape_def len n by (simp add: u)
  have g: "gradient example_tri [[1 / 4, 1 / 4], [3 / 4, 3 / 4]] = Inr [[1, 2], [1, 2]]"
    by (simp add: grad_defs eval_defs example_defs grid_defs)
  have t: "transpose [[1, 2], [1, 2 :: real]] = [[1, 1], [2, 2]]"
    by (simp add: transpose.simps)
  show ?thesis
    using p r by (simp add: thn_assoc[symmetric] g t)
qed

subsection \<open>Matrices as lists of rows\<close>



lemma dot_Cons: "dot (x # xs) (y # ys) = x * y + dot xs ys"
  by (simp add: dot_def)




lemma length_vecmat [simp]: "length (vecmat n d H) = n"
  by (simp add: vecmat_def)



lemma length_lattice_state:
  "grid_ok g \<Longrightarrow> length ijk = length (limits g) \<Longrightarrow>
   length (lattice_state g ijk) = length (limits g)"
  by (simp add: lattice_state_def)




subsection \<open>Affine fields\<close>
















subsection \<open>Barycentric weights\<close>









subsection \<open>The clip margin\<close>

lemma narrow_init:
  "Triangulation_init rectangle_delaunay example_inv [(0, 1 / 2 ^ 53), (0, 1)] [1, 1] None False
     = Inr narrow_tri"
  by (simp add: Triangulation_init_def narrow_tri_def rectangle_delaunay_def example_inv_def
      grid_defs cartesian_def np_diag_def
      triangulation_simplex_indices_def update_hyperplanes_def state_to_index_def
      state_to_index1_def clip_to_limits_def clip_def rint_def ravel_multi_index_def
      index_to_state_def index_to_state1_def unravel_index_def edge_matrix_def
      upt_rec_numeral Let_def cong: if_cong)

lemma narrow_ok: "Triangulation_ok narrow_tri"
  by (simp add: Triangulation_ok_def narrow_tri_def rectangle_delaunay_def grid_defs is_corner_def
      matmul_def identity_def unit_edges_def edge_matrix_def upt_rec_numeral)

text \<open>
  C10. With clipping enabled, \<^verbatim>\<open>state_to_rectangle\<close> and \<^verbatim>\<open>find_simplex\<close> should answer in
  range for every query point. On a grid whose first interval is \<open>[0, 2^-53]\<close>, narrower
  than the margin \<open>2 eps = 2^-51\<close>, the clip of \<^verbatim>\<open>_center_states\<close> moves the coordinate
  \<open>0\<close> to \<open>2^-53 - 2^-51 < 0\<close>; the floor division gives \<open>-3\<close> and
  \<^verbatim>\<open>ravel_multi_index\<close> raises.
\<close>

theorem clip_margin_leaves_domain:
  "center_states narrow_grid [[0, 1 / 2]] True = [[- 3 / 2 ^ 53, 1 / 2]] \<and>
   state_to_rectangle narrow_grid [[0, 1 / 2]] True = Inl ValueError \<and>
   find_simplex narrow_tri [[0, 1 / 2]] = Inl ValueError"
  by (simp add: narrow_grid_def narrow_tri_def rectangle_delaunay_def find_simplex_def
      state_to_rectangle_def center_states_def center_row_def rectangle_of_centered_def
      floor_divide_def fmod_def eps_def clip_def ravel_multi_index_def grid_defs Let_def)

subsection \<open>The constructor\<close>

text \<open>The derived grid attributes depend on the limits and the cell counts only.\<close>

lemma grid_functions_cong:
  assumes "limits a = limits b" "num_points a = num_points b"
  shows "offset a = offset b" "unit_maxes a = unit_maxes b" "vertex_dims a = vertex_dims b"
    "nindex a = nindex b" "ndim a = ndim b" "grid_ok a = grid_ok b"
    "lattice_state a = lattice_state b" "vertex_state a = vertex_state b"
    "is_corner a = is_corner b" "unit_edges a = unit_edges b"
    "index_to_state a = index_to_state b" "state_to_index a = state_to_index b"
proof -
  show o: "offset a = offset b" using assms by (simp add: offset_def)
  show u: "unit_maxes a = unit_maxes b" using assms by (simp add: unit_maxes_def)
  show d: "vertex_dims a = vertex_dims b" using assms by (simp add: vertex_dims_def)
  show n: "nindex a = nindex b" using d by (simp add: nindex_def)
  show "ndim a = ndim b" using assms by (simp add: ndim_def)
  show "grid_ok a = grid_ok b" using assms by (simp add: grid_ok_def)
  show l: "lattice_state a = lattice_state b"
    by (rule ext) (simp add: lattice_state_def o u)
  show "vertex_state a = vertex_state b"
    by (rule ext) (simp add: vertex_state_def l d)
  show "is_corner a = is_corner b"
    by (rule ext) (simp add: is_corner_def n d)
  show "unit_edges a = unit_edges b"
    by (rule ext) (simp add: unit_edges_def l d)
  have "index_to_state1 a = index_to_state1 b"
    by (rule ext) (simp add: index_to_state1_def l d)
  then show "index_to_state a = index_to_state b"
    by (rule_tac ext) (simp add: index_to_state_def)
  have "state_to_index1 a = state_to_index1 b"
    by (rule ext) (simp add: state_to_index1_def clip_to_limits_def assms o u d)
  then show "state_to_index a = state_to_index b"
    by (rule_tac ext) (simp add: state_to_index_def)
qed

lemma np_diag_entries:
  assumes "d < length v" "x \<in> set (np_diag v ! d)"
  shows "x = 0 \<or> x = v ! d"
  using assms by (auto simp: np_diag_def)

lemma cartesian_corner:
  assumes "c \<in> set (cartesian (np_diag v))"
  shows "length c = length v" "\<And>d. d < length v \<Longrightarrow> c ! d = 0 \<or> c ! d = v ! d"
proof -
  have a: "list_all2 (\<lambda>x ys. x \<in> set ys) c (np_diag v)"
    using assms by (simp add: cartesian_def product_lists_set)
  have l: "length (np_diag v) = length v" by (simp add: np_diag_def)
  show "length c = length v" using list_all2_lengthD[OF a] l by simp
  fix d assume d: "d < length v"
  then have "c ! d \<in> set (np_diag v ! d)"
    using list_all2_nthD2[OF a, of d] l by simp
  then show "c ! d = 0 \<or> c ! d = v ! d" using np_diag_entries[OF d] by blast
qed

lemma corner_index:
  assumes ok: "grid_ok g" and c: "c \<in> set (cartesian (np_diag (unit_maxes g)))"
    and s: "state_to_index1 g (map2 (+) c (offset g)) = Inr i"
  shows "is_corner g i"
proof -
  let ?n = "length (limits g)"
  let ?m = "map (\<lambda>x. if x = 0 then 0 else (1::int)) c"
  have lu: "length (unit_maxes g) = ?n" using ok by simp
  note C = cartesian_corner[OF c, unfolded lu]
  have lnp: "length (num_points g) = ?n" using ok by (simp add: grid_ok_def)
  have lm: "length ?m = ?n" using C(1) by simp
  have st: "map2 (+) c (offset g) = lattice_state g ?m"
  proof (rule nth_equalityI)
    show "length (map2 (+) c (offset g)) = length (lattice_state g ?m)"
      using C(1) lu by (simp add: lattice_state_def)
  next
    fix d assume "d < length (map2 (+) c (offset g))"
    then have d: "d < ?n" using C(1) by simp
    show "map2 (+) c (offset g) ! d = lattice_state g ?m ! d"
      using C(2)[OF d] d C(1) lu by (auto simp: lattice_state_def)
  qed
  have rng: "list_all2 (\<lambda>k d. 0 \<le> k \<and> k < d) ?m (vertex_dims g)"
  proof (rule list_all2_all_nthI)
    show "length ?m = length (vertex_dims g)" using lm lnp by simp
  next
    fix d assume "d < length ?m"
    then have d: "d < ?n" using lm by simp
    have "1 \<le> num_points g ! d" using grid_ok_nth(2)[OF ok d] .
    then show "0 \<le> ?m ! d \<and> ?m ! d < vertex_dims g ! d"
      using d C(1) lnp by (simp add: vertex_dims_def)
  qed
  have i: "i = ravel_c ?m (vertex_dims g)"
    using state_to_index1_lattice[OF ok lm rng] s unfolding st by simp
  have ne: "vertex_dims g \<noteq> []" using ok by (auto simp: grid_ok_def vertex_dims_def)
  have b: "0 \<le> i" "i < nindex g"
    using ravel_c_bounds[OF rng] ne by (simp_all add: i nindex_def)
  have "unravel_c i (vertex_dims g) = ?m" unfolding i by (rule unravel_ravel_c[OF rng])
  then show ?thesis using b by (auto simp: is_corner_def list_all_iff)
qed

lemma length_edge_matrix: "length (edge_matrix sp) = length sp - 1"
  by (cases sp) (simp_all add: edge_matrix_def)

text \<open>
  The constructor establishes the invariant: on a documented grid, when scipy returns
  the points it was given and a nonempty list of simplices of \<open>ndim + 1\<close> point numbers
  each, and when what \<^verbatim>\<open>np.linalg.inv\<close> returns is a two-sided inverse.
\<close>

lemma Triangulation_init_ok:
  fixes spatial_Delaunay linalg_inv lims npts vv proj
  defines "g \<equiv> \<lparr>limits = lims, num_points = npts, vertex_values = vv\<rparr>"
  defines "corners \<equiv> cartesian (np_diag (unit_maxes g))"
  assumes ok: "grid_ok g"
    and D1: "dl_points (spatial_Delaunay corners) = corners"
    and D2: "dl_simplices (spatial_Delaunay corners) \<noteq> []"
    and D3: "list_all (\<lambda>s. length s = length lims + 1 \<and> list_all (\<lambda>i. i < length corners) s)
               (dl_simplices (spatial_Delaunay corners))"
    and I: "\<And>M H. linalg_inv M = Inr H \<Longrightarrow>
               length H = length M \<and> list_all (\<lambda>r. length r = length M) H \<and>
               matmul (length M) H M = identity (length M) \<and>
               matmul (length M) M H = identity (length M)"
    and init: "Triangulation_init spatial_Delaunay linalg_inv lims npts vv proj = Inr T"
  shows "Triangulation_ok T"
proof -
  let ?D = "spatial_Delaunay corners"
  let ?T0 = "\<lparr>limits = lims, num_points = npts, vertex_values = vv,
               triangulation = ?D, unit_simplices = [], hyperplanes = [], project = proj\<rparr>"
  from init obtain us where
    us: "triangulation_simplex_indices ?T0 = Inr us"
    and uh: "update_hyperplanes linalg_inv (?T0\<lparr>unit_simplices := us\<rparr>) = Inr T"
    unfolding Triangulation_init_def Let_def thn_Inr_iff g_def[symmetric] corners_def[symmetric]
    by blast
  let ?T1 = "?T0\<lparr>unit_simplices := us\<rparr>"
  from uh obtain hs where
    hs: "mapM (\<lambda>simplex. thn (index_to_state ?T1 simplex)
                  (\<lambda>simplex_points. linalg_inv (edge_matrix simplex_points))) us = Inr hs"
    and T: "T = ?T1\<lparr>hyperplanes := hs\<rparr>"
    unfolding update_hyperplanes_def thn_Inr_iff by auto
  have lT: "limits T = limits g" "num_points T = num_points g" by (simp_all add: T g_def)
  note CT = grid_functions_cong[OF lT]
  have l0: "limits ?T0 = limits g" "num_points ?T0 = num_points g" by (simp_all add: g_def)
  note C0 = grid_functions_cong[OF l0]
  have l1: "limits ?T1 = limits g" "num_points ?T1 = num_points g" by (simp_all add: g_def)
  note C1 = grid_functions_cong[OF l1]
  have nd: "ndim g = length lims" by (simp add: ndim_def g_def)
  from us obtain im where
    im: "state_to_index g (map (\<lambda>p. map2 (+) p (offset g)) corners) = Inr im"
    and use: "us = map (map (\<lambda>i. im ! i)) (dl_simplices ?D)"
    unfolding triangulation_simplex_indices_def thn_Inr_iff C0 by (auto simp: D1)
  have im2: "list_all2 (\<lambda>p i. state_to_index1 g p = Inr i)
               (map (\<lambda>p. map2 (+) p (offset g)) corners) im"
    using im unfolding state_to_index_def mapM_Inr_iff .
  have lim: "length im = length corners" using list_all2_lengthD[OF im2] by simp
  have imc: "\<And>k. k < length corners \<Longrightarrow> is_corner g (im ! k)"
  proof -
    fix k assume k: "k < length corners"
    have "state_to_index1 g (map (\<lambda>p. map2 (+) p (offset g)) corners ! k) = Inr (im ! k)"
      using list_all2_nthD[OF im2, of k] k by simp
    then have s: "state_to_index1 g (map2 (+) (corners ! k) (offset g)) = Inr (im ! k)"
      using k by simp
    have c: "corners ! k \<in> set (cartesian (np_diag (unit_maxes g)))"
      using k unfolding corners_def by simp
    show "is_corner g (im ! k)" by (rule corner_index[OF ok c s])
  qed
  have rows: "list_all (\<lambda>s. length s = ndim g + 1 \<and> list_all (is_corner g) s) us"
    unfolding list_all_iff
  proof
    fix s assume "s \<in> set us"
    then obtain s' where s': "s' \<in> set (dl_simplices ?D)" "s = map (\<lambda>i. im ! i) s'"
      unfolding use by auto
    have p: "length s' = length lims + 1" "\<And>i. i \<in> set s' \<Longrightarrow> i < length corners"
      using D3 s'(1) by (auto simp: list_all_iff)
    show "length s = ndim g + 1 \<and> (\<forall>x\<in>set s. is_corner g x)"
      using p imc by (auto simp: s'(2) nd)
  qed
  have hyp: "list_all2 (\<lambda>s H. length H = ndim g \<and> list_all (\<lambda>r. length r = ndim g) H \<and>
                  matmul (ndim g) H (unit_edges g s) = identity (ndim g) \<and>
                  matmul (ndim g) (unit_edges g s) H = identity (ndim g)) us hs"
  proof (rule list_all2_all_nthI)
    have "list_all2 (\<lambda>s H. thn (index_to_state ?T1 s)
               (\<lambda>sp. linalg_inv (edge_matrix sp)) = Inr H) us hs"
      using hs unfolding mapM_Inr_iff .
    then show "length us = length hs" by (rule list_all2_lengthD)
  next
    fix k assume k: "k < length us"
    have a: "list_all2 (\<lambda>s H. thn (index_to_state ?T1 s)
               (\<lambda>sp. linalg_inv (edge_matrix sp)) = Inr H) us hs"
      using hs unfolding mapM_Inr_iff .
    let ?s = "us ! k"
    have sk: "length ?s = ndim g + 1" "list_all (is_corner g) ?s"
      using rows k by (simp_all add: list_all_length)
    have "index_to_state g ?s = Inr (map (vertex_state g) ?s)"
      unfolding index_to_state_def
    proof (rule mapM_Inr_map)
      fix v assume "v \<in> set ?s"
      then have "is_corner g v" using sk(2) by (simp add: list_all_iff)
      then show "index_to_state1 g v = Inr (vertex_state g v)"
        by (intro index_to_state1_vertex) (auto simp: is_corner_def)
    qed
    moreover have "edge_matrix (map (vertex_state g) ?s) = unit_edges g ?s"
      by (simp add: unit_edges_def vertex_state_def[abs_def])
    moreover have "index_to_state \<lparr>limits = lims, num_points = npts, vertex_values = vv,
               triangulation = ?D, unit_simplices = us, hyperplanes = [], project = proj\<rparr>
             = index_to_state g"
      by (rule grid_functions_cong(11)) (simp_all add: g_def)
    ultimately have "linalg_inv (unit_edges g ?s) = Inr (hs ! k)"
      using list_all2_nthD[OF a k] by simp
    moreover have "length (unit_edges g ?s) = ndim g"
      using sk(1) by (simp add: unit_edges_def length_edge_matrix)
    ultimately show "length (hs ! k) = ndim g \<and> list_all (\<lambda>r. length r = ndim g) (hs ! k) \<and>
                  matmul (ndim g) (hs ! k) (unit_edges g ?s) = identity (ndim g) \<and>
                  matmul (ndim g) (unit_edges g ?s) (hs ! k) = identity (ndim g)"
      using I[of "unit_edges g ?s" "hs ! k"] by simp
  qed
  have f: "unit_simplices T = us" "hyperplanes T = hs" "triangulation T = ?D"
    by (simp_all add: T)
  have ne: "us \<noteq> []" using D2 by (simp add: use)
  have le: "length (dl_simplices ?D) = length us" by (simp add: use)
  show ?thesis
    unfolding Triangulation_ok_def f CT using ok ne le rows hyp by simp
qed

end
